theory Spec2Isabelle
  imports Main "HOL-Library.Sublist"
begin

section \<open>Alert throttling: \<open>AlertService.shouldSendAlert\<close>\<close>

text \<open>
  The throttling block of \<open>AlertConfig\<close> and the \<open>ThrottleRecord\<close> interface of the alert
  service. Times are the millisecond readings of \<open>Date.now()\<close>, counts and limits are the
  numbers parsed from the environment; both are integers here. The field \<open>debounceTimer\<close>
  holds the delay of the pending \<open>setTimeout\<close> when one is set; its callback only deletes
  the field again and no decision reads it.
\<close>

record ThrottleConfig =
  throttlingEnabled :: bool
  windowMs :: int
  maxAlertsPerWindow :: int
  debounceMs :: int

record ThrottleRecord =
  count :: int
  windowStart :: int
  lastEventTime :: int
  debounceTimer :: "int option"

type_synonym throttleMap = "string \<rightharpoonup> ThrottleRecord"

text \<open>The record literal stored for an event type that has no record yet.\<close>

definition newRecord :: "int \<Rightarrow> ThrottleRecord" where
  "newRecord now = \<lparr>count = 0, windowStart = now, lastEventTime = 0, debounceTimer = None\<rparr>"

text \<open>
  The statements of \<open>shouldSendAlert\<close> that work on the record once it has been looked up:
  the window reset, the rate limit, the debounce gate and the update on admission, in the
  order of the source. The result is the returned boolean and the mutated record.
\<close>

definition resetWindow :: "ThrottleConfig \<Rightarrow> int \<Rightarrow> ThrottleRecord \<Rightarrow> ThrottleRecord" where
  "resetWindow cfg now r =
     (if now - windowStart r \<ge> windowMs cfg
      then r\<lparr>count := 0, windowStart := now\<rparr>
      else r)"

definition gateRecord :: "ThrottleConfig \<Rightarrow> int \<Rightarrow> ThrottleRecord \<Rightarrow> bool \<times> ThrottleRecord" where
  "gateRecord cfg now r =
     (if count r \<ge> maxAlertsPerWindow cfg then (False, r)
      else
        let timeSinceLastAlert = now - lastEventTime r in
        if lastEventTime r > 0 \<and> timeSinceLastAlert < debounceMs cfg
        then (False, r\<lparr>debounceTimer := Some (debounceMs cfg - timeSinceLastAlert)\<rparr>)
        else (True, r\<lparr>count := count r + 1, lastEventTime := now\<rparr>))"

definition throttleRecord :: "ThrottleConfig \<Rightarrow> int \<Rightarrow> ThrottleRecord \<Rightarrow> bool \<times> ThrottleRecord" where
  "throttleRecord cfg now r = gateRecord cfg now (resetWindow cfg now r)"

definition shouldSendAlert ::
  "ThrottleConfig \<Rightarrow> string \<Rightarrow> int \<Rightarrow> throttleMap \<Rightarrow> bool \<times> throttleMap" where
  "shouldSendAlert cfg eventType now tm =
     (let record = (case tm eventType of None \<Rightarrow> newRecord now | Some r \<Rightarrow> r);
          (ok, record') = throttleRecord cfg now record
      in (ok, tm(eventType \<mapsto> record')))"

text \<open>
  Successive calls of \<open>shouldSendAlert\<close>, one per arriving event (event type and the clock
  reading of the call), on the map left by the call before; the list of returned booleans.
\<close>

fun throttleRun :: "ThrottleConfig \<Rightarrow> throttleMap \<Rightarrow> (string \<times> int) list \<Rightarrow> bool list" where
  "throttleRun cfg tm [] = []"
| "throttleRun cfg tm ((c, t) # es) =
     (case shouldSendAlert cfg c t tm of (ok, tm') \<Rightarrow> ok # throttleRun cfg tm' es)"

text \<open>
  The throttle decision in the words of the specification (section 4.4), on a record of
  the three fields the specification names, for comparison with the code.
\<close>

record SpecThrottleRecord =
  countInWindow :: int
  specWindowStart :: int
  lastAdmittedTime :: int

definition spec_throttle ::
  "int \<Rightarrow> int \<Rightarrow> int \<Rightarrow> int \<Rightarrow> SpecThrottleRecord option \<Rightarrow> bool \<times> SpecThrottleRecord" where
  "spec_throttle wMs maxPerWindow dMs T ro =
     (let r0 = (case ro of
                  None \<Rightarrow> \<lparr>countInWindow = 0, specWindowStart = T, lastAdmittedTime = 0\<rparr>
                | Some r \<Rightarrow> r);
          r1 = (if T - specWindowStart r0 \<ge> wMs
                then r0\<lparr>countInWindow := 0, specWindowStart := T\<rparr> else r0)
      in if countInWindow r1 \<ge> maxPerWindow then (False, r1)
         else if lastAdmittedTime r1 > 0 \<and> T - lastAdmittedTime r1 < dMs then (False, r1)
         else (True, r1\<lparr>countInWindow := countInWindow r1 + 1, lastAdmittedTime := T\<rparr>))"

definition specView :: "ThrottleRecord \<Rightarrow> SpecThrottleRecord" where
  "specView r =
     \<lparr>countInWindow = count r, specWindowStart = windowStart r, lastAdmittedTime = lastEventTime r\<rparr>"

definition scenarioConfig :: ThrottleConfig where
  "scenarioConfig =
     \<lparr>throttlingEnabled = True, windowMs = 60000, maxAlertsPerWindow = 5, debounceMs = 5000\<rparr>"

definition fullRecord :: ThrottleRecord where
  "fullRecord = \<lparr>count = 5, windowStart = 0, lastEventTime = 0, debounceTimer = None\<rparr>"

definition scenarioEvents :: "int \<Rightarrow> (string \<times> int) list" where
  "scenarioEvents base =
     map (\<lambda>d. (''motionalarm'', base + d)) [0, 1000, 2000, 3000, 4000, 5000]"

text \<open>
  The number of events of type \<open>c\<close> that a run admits with an arrival time in the
  interval from \<open>a\<close> (included) to \<open>a + windowMs\<close> (excluded).
\<close>

definition counted :: "ThrottleConfig \<Rightarrow> string \<Rightarrow> int \<Rightarrow> (string \<times> int) \<times> bool \<Rightarrow> bool" where
  "counted cfg c a x =
     (case x of ((c', t), ok) \<Rightarrow> ok \<and> c' = c \<and> a \<le> t \<and> t < a + windowMs cfg)"

definition admittedIn ::
  "ThrottleConfig \<Rightarrow> throttleMap \<Rightarrow> (string \<times> int) list \<Rightarrow> string \<Rightarrow> int \<Rightarrow> nat" where
  "admittedIn cfg tm es c a = length (filter (counted cfg c a) (zip es (throttleRun cfg tm es)))"

text \<open>
  What a record still allows: the admissions left in its current window, and from that a
  bound on the admissions in the interval that starts at \<open>a\<close>, by the position of \<open>a\<close>
  relative to the current window.
\<close>

definition remaining :: "ThrottleConfig \<Rightarrow> ThrottleRecord \<Rightarrow> nat" where
  "remaining cfg r = nat (maxAlertsPerWindow cfg - count r)"

definition windowBound :: "ThrottleConfig \<Rightarrow> int \<Rightarrow> ThrottleRecord option \<Rightarrow> nat" where
  "windowBound cfg a ro =
     (case ro of
        None \<Rightarrow> 2 * nat (maxAlertsPerWindow cfg)
      | Some r \<Rightarrow>
          if a \<le> windowStart r then remaining cfg r
          else if a < windowStart r + windowMs cfg
          then remaining cfg r + nat (maxAlertsPerWindow cfg)
          else 2 * nat (maxAlertsPerWindow cfg))"

definition burstEvents :: "(string \<times> int) list" where
  "burstEvents =
     map (\<lambda>t. (''motionalarm'', t))
       [1000, 40000, 45000, 50000, 55000, 61000, 66000, 71000, 76000, 81000]"

section \<open>Strings as the event service uses them\<close>

text \<open>
  Strings are lists of 8-bit characters. \<open>toLowerCase\<close> maps the letters A to Z and
  leaves every other character as it is (no other character of this range becomes a
  character of \<open>a-z0-9\<close> in JavaScript either); \<open>includes_str\<close>, \<open>split_str\<close> and
  \<open>startsWith\<close> are the JavaScript methods \<open>includes\<close>, \<open>split\<close> (with a
  one-character separator) and \<open>startsWith\<close>.
\<close>

definition toLowerCaseChar :: "char \<Rightarrow> char" where
  "toLowerCaseChar c =
     (if (65::nat) \<le> of_char c \<and> of_char c \<le> (90::nat)
      then char_of (of_char c + (32::nat)) else c)"

definition toLowerCase :: "string \<Rightarrow> string" where
  "toLowerCase s = map toLowerCaseChar s"

definition startsWith :: "string \<Rightarrow> string \<Rightarrow> bool" where
  "startsWith s pat = prefix pat s"

fun includes_str :: "string \<Rightarrow> string \<Rightarrow> bool" where
  "includes_str [] pat = (pat = [])"
| "includes_str (x # xs) pat = (startsWith (x # xs) pat \<or> includes_str xs pat)"

fun split_str :: "char \<Rightarrow> string \<Rightarrow> string list" where
  "split_str sep [] = [[]]"
| "split_str sep (x # xs) =
     (if x = sep then [] # split_str sep xs
      else (case split_str sep xs of p # ps \<Rightarrow> (x # p) # ps | [] \<Rightarrow> [[x]]))"

text \<open>The replacement \<open>replace(/[^a-z0-9]/g, '_')\<close>: one underscore for each other character.\<close>

definition isLowerAlnum :: "char \<Rightarrow> bool" where
  "isLowerAlnum c =
     (((97::nat) \<le> of_char c \<and> of_char c \<le> (122::nat)) \<or>
      ((48::nat) \<le> of_char c \<and> of_char c \<le> (57::nat)))"

definition replaceSpecial :: "string \<Rightarrow> string" where
  "replaceSpecial s = map (\<lambda>c. if isLowerAlnum c then c else CHR ''_'') s"

section \<open>Event classification: \<open>EventService.extractEventType\<close>\<close>

definition extractEventType :: "string \<Rightarrow> string" where
  "extractEventType topic =
     (if topic = [] then ''unknown''
      else
        let parts = split_str (CHR ''/'') topic in
        if length parts \<ge> 2 then
          let lastPart = last parts in
          if includes_str (toLowerCase lastPart) ''people'' \<or>
             includes_str (toLowerCase lastPart) ''human'' \<or>
             includes_str (toLowerCase lastPart) ''person''
          then ''peopledetection''
          else if includes_str (toLowerCase lastPart) ''object'' \<and>
                  includes_str (toLowerCase topic) ''analytics''
          then ''objectdetection''
          else replaceSpecial (toLowerCase lastPart)
        else replaceSpecial (toLowerCase topic))"

section \<open>Notification parsing: \<open>EventService.parseEventXml\<close>\<close>

text \<open>
  The regular expressions of \<open>parseEventXml\<close> are built from literal texts and from
  classes that exclude one character, so each of them is a search for a literal text:
  \<open>firstMatch pat s\<close> is the text before the first occurrence of \<open>pat\<close> in \<open>s\<close> and
  the text after it, or \<open>None\<close> when \<open>pat\<close> does not occur.
\<close>

fun firstMatch :: "string \<Rightarrow> string \<Rightarrow> (string \<times> string) option" where
  "firstMatch pat [] = (if pat = [] then Some ([], []) else None)"
| "firstMatch pat (x # xs) =
     (if startsWith (x # xs) pat then Some ([], drop (length pat) (x # xs))
      else (case firstMatch pat xs of
              None \<Rightarrow> None
            | Some (skipped, rest) \<Rightarrow> Some (x # skipped, rest)))"

lemma firstMatch_decomp:
  "firstMatch pat s = Some (skipped, rest) \<Longrightarrow> s = skipped @ pat @ rest"
proof (induction s arbitrary: skipped)
  case Nil
  then show ?case by (simp split: if_splits)
next
  case (Cons x xs)
  show ?case
  proof (cases "startsWith (x # xs) pat")
    case True
    with Cons.prems have sk: "skipped = []" and rest: "rest = drop (length pat) (x # xs)"
      by simp_all
    from True have "pat = take (length pat) (x # xs)"
      by (auto simp add: startsWith_def prefix_def)
    then have "x # xs = pat @ drop (length pat) (x # xs)"
      by (metis append_take_drop_id)
    with sk rest show ?thesis by simp
  next
    case False
    with Cons.prems obtain sk where "firstMatch pat xs = Some (sk, rest)" "skipped = x # sk"
      by (auto split: option.splits)
    with Cons.IH [of sk] show ?thesis by simp
  qed
qed

definition openTag :: string where
  "openTag = ''<wsnt:NotificationMessage>''"

definition closeTag :: string where
  "closeTag = ''</wsnt:NotificationMessage>''"

text \<open>
  \<open>xmlBody.match(/<wsnt:NotificationMessage>[\s\S]*?<\/wsnt:NotificationMessage>/g) || []\<close>:
  the first opening tag, the shortest text up to a closing tag, and the search goes on
  behind that closing tag.
\<close>

function notificationMessages :: "string \<Rightarrow> string list" where
  "notificationMessages xmlBody =
     (case firstMatch openTag xmlBody of
        None \<Rightarrow> []
      | Some (skipped, rest) \<Rightarrow>
          (case firstMatch closeTag rest of
             None \<Rightarrow> []
           | Some (inner, rest') \<Rightarrow>
               (openTag @ inner @ closeTag) # notificationMessages rest'))"
  by pat_completeness auto
termination
proof (relation "measure length")
  show "wf (measure length)" by simp
next
  fix xmlBody skipped rest inner rest' :: string and x2 y :: "string \<times> string"
  assume "firstMatch openTag xmlBody = Some x2" "(skipped, rest) = x2"
    "firstMatch closeTag rest = Some y" "(inner, rest') = y"
  then have a: "firstMatch openTag xmlBody = Some (skipped, rest)"
    and b: "firstMatch closeTag rest = Some (inner, rest')"
    by simp_all
  have "length xmlBody = length skipped + length openTag + length rest"
    using firstMatch_decomp [OF a] by (metis length_append add.assoc)
  moreover have "length rest = length inner + length closeTag + length rest'"
    using firstMatch_decomp [OF b] by (metis length_append add.assoc)
  moreover have "0 < length openTag"
    by (simp add: openTag_def)
  ultimately show "(rest', xmlBody) \<in> measure length"
    by simp
qed

declare notificationMessages.simps [simp del]

definition lineTerminator :: "char \<Rightarrow> bool" where
  "lineTerminator c = (c = CHR 0x0A \<or> c = CHR 0x0D)"

definition dquote :: string where
  "dquote = [CHR 0x22]"

text \<open>
  \<open>messageXml.match(/<wsnt:Topic[^>]*>(.*?)<\/wsnt:Topic>/)\<close>: \<open>topicAt\<close> is the
  pattern behind the literal \<open><wsnt:Topic\<close> (the class runs to the first \<open>>\<close>; the
  captured text is the shortest one before a closing tag and holds no line terminator),
  and \<open>topicMatch\<close> tries the start positions from the left. The result is the
  captured text.
\<close>

definition topicAt :: "string \<Rightarrow> string option" where
  "topicAt rest =
     (case firstMatch ''>'' rest of
        None \<Rightarrow> None
      | Some (attrs, rest') \<Rightarrow>
          (case firstMatch ''</wsnt:Topic>'' rest' of
             None \<Rightarrow> None
           | Some (captured, rest'') \<Rightarrow>
               if list_ex lineTerminator captured then None else Some captured))"

fun topicMatch :: "string \<Rightarrow> string option" where
  "topicMatch [] = None"
| "topicMatch (x # xs) =
     (if startsWith (x # xs) ''<wsnt:Topic''
      then (case topicAt (drop (length ''<wsnt:Topic'') (x # xs)) of
              Some captured \<Rightarrow> Some captured
            | None \<Rightarrow> topicMatch xs)
      else topicMatch xs)"

text \<open>
  \<open>messageXml.match(/UtcTime="([^"]*)"/)\<close>, for any attribute name; the result is the
  captured text.
\<close>

definition attrMatch :: "string \<Rightarrow> string \<Rightarrow> string option" where
  "attrMatch name s =
     (case firstMatch (name @ ''='' @ dquote) s of
        None \<Rightarrow> None
      | Some (skipped, rest) \<Rightarrow>
          (case firstMatch dquote rest of
             None \<Rightarrow> None
           | Some (captured, rest') \<Rightarrow> Some captured))"

text \<open>
  \<open>ProcessedEvent\<close>. The id \<open>`${Date.now()}-${Math.random().toString(36).substr(2, 9)}`\<close>
  is the pair of the clock reading and the random suffix it is printed from; the timestamp
  is the millisecond value of the \<open>Date\<close>, \<open>None\<close> for an invalid date. The fields
  \<open>source\<close> and \<open>data\<close> (the \<open>SimpleItem\<close> names and values) are left out: they come
  from further \<open>match\<close> calls that cannot throw and that decide neither how many events
  there are nor their id, topic and type.
\<close>

record ProcessedEvent =
  ev_id :: "int \<times> string"
  ev_timestamp :: "int option"
  ev_topic :: string
  ev_type :: string
  ev_raw :: string

text \<open>The exceptions that the event service meets.\<close>

datatype serviceError = SubscriptionError | ListenerError | RangeError | URIError

text \<open>
  What the code takes from its runtime: \<open>draw k\<close> is the reading of \<open>Date.now()\<close> and
  the random suffix of the \<open>k\<close>-th event built in a call, \<open>clock k\<close> is the reading of
  \<open>new Date()\<close> taken for that event, \<open>parseDate\<close> is the \<open>Date\<close> constructor on a
  string, \<open>listenerThrows\<close> tells for which events a registered listener throws out of
  \<open>emit\<close>, and \<open>urlParse\<close> is \<open>parse\<close> of the \<open>url\<close> module of Node on a request
  target: it gives the \<open>pathname\<close> (absent when it is null), or it throws, as it does
  with \<open>URIError\<close> for a target whose user information cannot be decoded.
\<close>

record Runtime =
  draw :: "nat \<Rightarrow> int \<times> string"
  clock :: "nat \<Rightarrow> int"
  parseDate :: "string \<Rightarrow> int option"
  listenerThrows :: "ProcessedEvent \<Rightarrow> bool"
  urlParse :: "string \<Rightarrow> serviceError + string option"

text \<open>
  A runtime for the examples: the clock advances by one millisecond from event to event,
  the random suffix is the number of the event read as a character, one date text is
  valid, and no listener throws. \<open>sampleUrlParse\<close> is \<open>url.parse\<close> on the targets of
  the examples: for a target that is a path, the pathname is the text before the query;
  the target \<open>http://%E0@camera/events/1700000000000\<close> is an absolute URL whose user
  information \<open>%E0\<close> is no encoding of a character, and \<open>url.parse\<close> throws \<open>URIError\<close>
  when it decodes it.
\<close>

definition sampleUrlParse :: "string \<Rightarrow> serviceError + string option" where
  "sampleUrlParse target =
     (if target = ''http://%E0@camera/events/1700000000000'' then Inl URIError
      else if target = [] then Inr None
      else Inr (Some (takeWhile (\<lambda>c. c \<noteq> CHR ''?'') target)))"

definition sampleRuntime :: Runtime where
  "sampleRuntime =
     \<lparr>draw = (\<lambda>k. (1700000000000 + int k, [char_of k])),
      clock = (\<lambda>k. 1700000000000 + int k),
      parseDate = (\<lambda>text. if text = ''2025-01-01T00:00:00Z'' then Some 1735689600000 else None),
      listenerThrows = (\<lambda>e. False),
      urlParse = sampleUrlParse\<rparr>"

definition parseMessage :: "Runtime \<Rightarrow> nat \<Rightarrow> string \<Rightarrow> ProcessedEvent" where
  "parseMessage rt k messageXml =
     (let eventId = draw rt k;
          topic = (case topicMatch messageXml of Some captured \<Rightarrow> captured | None \<Rightarrow> ''unknown'');
          utcTime = (case attrMatch ''UtcTime'' messageXml of
                       Some captured \<Rightarrow> parseDate rt captured
                     | None \<Rightarrow> Some (clock rt k));
          eventType = extractEventType topic
      in \<lparr>ev_id = eventId, ev_timestamp = utcTime, ev_topic = topic, ev_type = eventType,
          ev_raw = messageXml\<rparr>)"

text \<open>
  The loop of \<open>parseEventXml\<close> pushes one event for each matched text. No statement of
  its \<open>try\<close> block can throw, so the \<open>catch\<close> that returns the empty list is never taken.
\<close>

definition parseEventXml :: "Runtime \<Rightarrow> string \<Rightarrow> ProcessedEvent list" where
  "parseEventXml rt xmlBody =
     map (\<lambda>(k, messageXml). parseMessage rt k messageXml)
       (enumerate 0 (notificationMessages xmlBody))"

text \<open>
  A payload written as \<open>n\<close> delimited blocks: a prefix, and for each block its inner text
  and the text that follows its closing tag. The texts before the blocks hold no opening
  tag, the inner texts hold no closing tag, and the text behind the last block holds no
  further block: no opening tag, or one with no closing tag anywhere behind it
  (\<open>noBlock\<close>).
\<close>

definition block :: "string \<Rightarrow> string" where
  "block inner = openTag @ inner @ closeTag"

fun payload :: "string \<Rightarrow> (string \<times> string) list \<Rightarrow> string" where
  "payload pre [] = pre"
| "payload pre ((inner, sep) # bs) = pre @ block inner @ payload sep bs"

definition noBlock :: "string \<Rightarrow> bool" where
  "noBlock s =
     (case firstMatch openTag s of
        None \<Rightarrow> True
      | Some (skipped, rest) \<Rightarrow> \<not> includes_str rest closeTag)"

fun delimited :: "string \<Rightarrow> (string \<times> string) list \<Rightarrow> bool" where
  "delimited pre [] = noBlock pre"
| "delimited pre ((inner, sep) # bs) =
     (\<not> includes_str pre openTag \<and> \<not> includes_str inner closeTag \<and> delimited sep bs)"

text \<open>
  Inputs for the examples: a runtime whose clock and random source give the same values
  every time, the inner text of a motion notification, and two blocks of which the first
  holds no notification at all.
\<close>

definition stuckRuntime :: Runtime where
  "stuckRuntime =
     \<lparr>draw = (\<lambda>k. (1700000000000, ''k3x9q2m1z'')),
      clock = (\<lambda>k. 1700000000000),
      parseDate = (\<lambda>text. None),
      listenerThrows = (\<lambda>e. False),
      urlParse = sampleUrlParse\<rparr>"

definition motionInner :: string where
  "motionInner =
     ''<wsnt:Topic Dialect='' @ dquote @ ''http://www.onvif.org/ver10/tev/topicExpression/ConcreteSet'' @ dquote @
     ''>tns1:VideoSource/MotionAlarm</wsnt:Topic>'' @
     ''<wsnt:Message><tt:Message UtcTime='' @ dquote @ ''2025-01-01T00:00:00Z'' @ dquote @
     ''></tt:Message></wsnt:Message>''"

definition garbledBlocks :: "(string \<times> string) list" where
  "garbledBlocks = [(''%%% not a notification %%%'', ''  ''), (motionInner, '' </soap:Body>'')]"

section \<open>The subscription manager: polling in \<open>EventService\<close>\<close>

record PollingConfig =
  pullInterval :: int
  messageLimit :: int
  pullTimeout :: string
  retryOnError :: bool
  maxRetries :: int

record EventService =
  isRunning :: bool
  eventCounter :: int
  retryCount :: int
  subscriptionActive :: bool

text \<open>
  How an awaited call of the device gateway settles, the calls a poll cycle makes, and
  the errors of the model.
\<close>

datatype 'a settled = Resolves 'a | Rejects

datatype gatewayCall = PullMessages | CreatePullPointSubscription

text \<open>
  \<open>EventService.createPullPointSubscription\<close>, given how the gateway call settles.
  \<open>polling\<close> is \<open>config.polling\<close>, absent when the configuration has no polling block.
\<close>

definition createPullPointSubscription ::
  "PollingConfig option \<Rightarrow> unit settled \<Rightarrow> EventService \<Rightarrow> (serviceError + unit) \<times> EventService" where
  "createPullPointSubscription polling gateway s =
     (case gateway of
        Resolves u \<Rightarrow> (Inr (), s\<lparr>subscriptionActive := True, retryCount := 0\<rparr>)
      | Rejects \<Rightarrow>
          (let s' = s\<lparr>subscriptionActive := False\<rparr> in
           if \<not> (case polling of None \<Rightarrow> False | Some p \<Rightarrow> retryOnError p)
           then (Inl SubscriptionError, s')
           else (Inr (), s')))"

text \<open>
  \<open>processPolledEvent\<close> on the topic of a pulled message (empty when the message has
  none); the timestamp is the time of processing.
\<close>

definition processPolledEvent :: "Runtime \<Rightarrow> nat \<Rightarrow> string \<Rightarrow> ProcessedEvent" where
  "processPolledEvent rt k topic =
     (let eventId = draw rt k;
          eventType = extractEventType (if topic = [] then ''unknown'' else topic)
      in \<lparr>ev_id = eventId, ev_timestamp = Some (clock rt k),
          ev_topic = (if topic = [] then ''unknown'' else topic), ev_type = eventType,
          ev_raw = topic\<rparr>)"

text \<open>
  \<open>pollForEvents\<close> in its parts, each of which runs without interruption. \<open>pollIssued\<close>
  is the part that runs when the timer fires, up to the first \<open>await\<close>: it tells whether
  \<open>pullMessages\<close> is called. \<open>pullSettled\<close> is the part that runs once that call has
  settled: the events of a successful pull are counted and emitted (\<open>emitPolled\<close>) and
  \<open>retryCount\<close> is reset; a rejected pull, or a listener that throws, enters the
  \<open>catch\<close> block (\<open>pollFailed\<close>), which counts the failure in \<open>retryCount\<close> and tells
  whether \<open>createPullPointSubscription\<close> is called. \<open>recreateSettled\<close> is the part
  that runs once that call has settled: the rest of \<open>createPullPointSubscription\<close> and
  the \<open>catch\<close> around it. The parts behind an \<open>await\<close> do not look at
  \<open>subscriptionActive\<close>.
\<close>

definition pollIssued :: "PollingConfig option \<Rightarrow> EventService \<Rightarrow> bool" where
  "pollIssued polling s =
     (if \<not> isRunning s \<or> polling = None then False
      else if \<not> subscriptionActive s then False
      else True)"

fun emitPolled ::
  "Runtime \<Rightarrow> ProcessedEvent list \<Rightarrow> EventService \<Rightarrow> EventService \<times> ProcessedEvent list \<times> bool" where
  "emitPolled rt [] s = (s, [], False)"
| "emitPolled rt (e # es) s =
     (let s1 = s\<lparr>eventCounter := eventCounter s + 1\<rparr> in
      if listenerThrows rt e then (s1, [e], True)
      else (case emitPolled rt es s1 of (s2, emitted, threw) \<Rightarrow> (s2, e # emitted, threw)))"

definition pollFailed :: "PollingConfig option \<Rightarrow> EventService \<Rightarrow> EventService \<times> bool" where
  "pollFailed polling s =
     (case polling of
        None \<Rightarrow> (s, False)
      | Some p \<Rightarrow>
          if \<not> isRunning s then (s, False)
          else
            let s1 = s\<lparr>retryCount := retryCount s + 1\<rparr> in
            if retryOnError p \<and> retryCount s1 \<le> maxRetries p then
              if retryCount s1 \<ge> maxRetries p then (s1, True) else (s1, False)
            else (s1\<lparr>subscriptionActive := False\<rparr>, False))"

definition pullSettled ::
  "PollingConfig option \<Rightarrow> Runtime \<Rightarrow> string list settled \<Rightarrow> EventService
     \<Rightarrow> EventService \<times> bool \<times> ProcessedEvent list" where
  "pullSettled polling rt pull s =
     (case pull of
        Resolves events \<Rightarrow>
          (case emitPolled rt (map (\<lambda>(k, topic). processPolledEvent rt k topic) (enumerate 0 events)) s of
             (s1, emitted, threw) \<Rightarrow>
               if threw
               then (case pollFailed polling s1 of (s2, create) \<Rightarrow> (s2, create, emitted))
               else (s1\<lparr>retryCount := 0\<rparr>, False, emitted))
      | Rejects \<Rightarrow>
          (case pollFailed polling s of (s2, create) \<Rightarrow> (s2, create, [])))"

definition recreateSettled :: "PollingConfig option \<Rightarrow> unit settled \<Rightarrow> EventService \<Rightarrow> EventService" where
  "recreateSettled polling gateway s =
     (case createPullPointSubscription polling gateway s of
        (Inl err, s') \<Rightarrow> s'\<lparr>subscriptionActive := False\<rparr>
      | (Inr u, s') \<Rightarrow> s')"

text \<open>
  The poll timer. \<open>startEventPolling\<close> hands \<open>setInterval\<close> a callback that calls
  \<open>pollForEvents\<close> on every tick. The service keeps no record of the invocations that
  have not finished yet; \<open>inFlight\<close> counts them here so that they can be spoken about.
  A tick runs the first part of \<open>pollForEvents\<close>.
\<close>

record PollLoop =
  service :: EventService
  inFlight :: nat

definition timerTick :: "PollingConfig option \<Rightarrow> PollLoop \<Rightarrow> PollLoop" where
  "timerTick polling L =
     (if pollIssued polling (service L) then L\<lparr>inFlight := inFlight L + 1\<rparr> else L)"

definition activeService :: EventService where
  "activeService =
     \<lparr>isRunning = True, eventCounter = 0, retryCount = 0, subscriptionActive = True\<rparr>"

definition defaultPolling :: PollingConfig where
  "defaultPolling =
     \<lparr>pullInterval = 5000, messageLimit = 10, pullTimeout = ''PT10S'', retryOnError = True,
      maxRetries = 3\<rparr>"

text \<open>
  The event loop around the subscription manager. A step is a tick of the timer, the
  settling of a pending \<open>pullMessages\<close>, or the settling of a pending
  \<open>createPullPointSubscription\<close>; between two steps nothing touches the service.
  \<open>recreating\<close> counts, among the invocations in flight, those that wait for
  \<open>createPullPointSubscription\<close>; the others wait for \<open>pullMessages\<close>. A settling
  for which no call is pending cannot happen (\<open>None\<close>). The result holds the gateway
  calls that the step makes. \<open>runLoop\<close> makes the steps of a list one after the other
  and gives the calls of each.
\<close>

record EventLoop =
  polls :: PollLoop
  recreating :: nat

datatype loopEvent =
  TimerTick
| PullSettles "string list settled"
| CreateSettles "unit settled"

definition loopStep ::
  "PollingConfig option \<Rightarrow> Runtime \<Rightarrow> loopEvent \<Rightarrow> EventLoop \<Rightarrow> (EventLoop \<times> gatewayCall list) option" where
  "loopStep polling rt ev E =
     (case ev of
        TimerTick \<Rightarrow>
          Some (E\<lparr>polls := timerTick polling (polls E)\<rparr>,
                if pollIssued polling (service (polls E)) then [PullMessages] else [])
      | PullSettles pull \<Rightarrow>
          if inFlight (polls E) \<le> recreating E then None
          else
            (case pullSettled polling rt pull (service (polls E)) of
               (s', create, emitted) \<Rightarrow>
                 if create
                 then Some (\<lparr>polls = \<lparr>service = s', inFlight = inFlight (polls E)\<rparr>,
                             recreating = recreating E + 1\<rparr>, [CreatePullPointSubscription])
                 else Some (\<lparr>polls = \<lparr>service = s', inFlight = inFlight (polls E) - 1\<rparr>,
                             recreating = recreating E\<rparr>, []))
      | CreateSettles gateway \<Rightarrow>
          if recreating E = 0 then None
          else
            Some (\<lparr>polls = \<lparr>service = recreateSettled polling gateway (service (polls E)),
                             inFlight = inFlight (polls E) - 1\<rparr>,
                    recreating = recreating E - 1\<rparr>, []))"

fun runLoop ::
  "PollingConfig option \<Rightarrow> Runtime \<Rightarrow> loopEvent list \<Rightarrow> EventLoop
     \<Rightarrow> (EventLoop \<times> gatewayCall list list) option" where
  "runLoop polling rt [] E = Some (E, [])"
| "runLoop polling rt (ev # evs) E =
     (case loopStep polling rt ev E of
        None \<Rightarrow> None
      | Some (E1, calls) \<Rightarrow>
          (case runLoop polling rt evs E1 of
             None \<Rightarrow> None
           | Some (E2, others) \<Rightarrow> Some (E2, calls # others)))"

text \<open>
  The loop with nothing in flight, and states for the examples: the disabled service
  that a failed recreation leaves, with four pulls still pending.
\<close>

definition idleLoop :: "EventService \<Rightarrow> EventLoop" where
  "idleLoop s = \<lparr>polls = \<lparr>service = s, inFlight = 0\<rparr>, recreating = 0\<rparr>"

definition disabledService :: EventService where
  "disabledService = activeService\<lparr>retryCount := 3, subscriptionActive := False\<rparr>"

definition disabledWithPending :: EventLoop where
  "disabledWithPending = \<lparr>polls = \<lparr>service = disabledService, inFlight = 4\<rparr>, recreating = 0\<rparr>"

section \<open>The notification receiver: \<open>EventService.handleHttpRequest\<close>\<close>

text \<open>
  The loop of \<open>processEventNotification\<close> over the parsed events: the counter goes up,
  the event is emitted (a listener may throw), and the log line formats the timestamp,
  which throws for an invalid date. The first exception ends the loop; the \<open>catch\<close> of
  \<open>processEventNotification\<close> logs it, so the function itself always returns.
\<close>

fun notifyAll ::
  "Runtime \<Rightarrow> ProcessedEvent list \<Rightarrow> EventService
     \<Rightarrow> EventService \<times> ProcessedEvent list \<times> serviceError option" where
  "notifyAll rt [] s = (s, [], None)"
| "notifyAll rt (e # es) s =
     (let s1 = s\<lparr>eventCounter := eventCounter s + 1\<rparr> in
      if listenerThrows rt e then (s1, [e], Some ListenerError)
      else if ev_timestamp e = None then (s1, [e], Some RangeError)
      else (case notifyAll rt es s1 of (s2, emitted, err) \<Rightarrow> (s2, e # emitted, err)))"

definition processEventNotification ::
  "Runtime \<Rightarrow> string \<Rightarrow> EventService \<Rightarrow> EventService \<times> ProcessedEvent list \<times> serviceError option" where
  "processEventNotification rt xmlBody s = notifyAll rt (parseEventXml rt xmlBody) s"

text \<open>
  A request as the handler sees it: the method and the request target \<open>req.url\<close>, the
  empty text when it is undefined. The body is passed once it has been read to its end.
  \<open>writable\<close> tells whether writing the success response goes through.
\<close>

record HttpRequest =
  httpMethod :: string
  url :: string

record HttpResponse =
  statusCode :: int
  contentType :: "string option"
  responseBody :: string

definition soapAck :: string where
  \<open>soapAck = ''<?xml version="1.0" encoding="UTF-8"?><soap:Envelope xmlns:soap="http://www.w3.org/2003/05/soap-envelope"><soap:Body></soap:Body></soap:Envelope>''\<close>

text \<open>
  \<open>handleHttpRequest\<close>. Its first statement parses the target and stands outside every
  \<open>try\<close>, and the server callback that calls the handler has none either: when
  \<open>url.parse\<close> throws, the exception leaves the handler and no response is written
  (\<open>Inl\<close>). Otherwise the result is the response written.
\<close>

definition handleHttpRequest ::
  "Runtime \<Rightarrow> bool \<Rightarrow> HttpRequest \<Rightarrow> string \<Rightarrow> EventService
     \<Rightarrow> (serviceError + HttpResponse) \<times> EventService \<times> ProcessedEvent list" where
  "handleHttpRequest rt writable req body s =
     (case urlParse rt (url req) of
        Inl err \<Rightarrow> (Inl err, s, [])
      | Inr pathname \<Rightarrow>
          if httpMethod req = ''POST'' \<and>
             (case pathname of None \<Rightarrow> False | Some p \<Rightarrow> p \<noteq> [] \<and> startsWith p ''/events/'')
          then
            (case processEventNotification rt body s of
               (s', emitted, err) \<Rightarrow>
                 if writable
                 then (Inr \<lparr>statusCode = 200, contentType = Some ''text/xml'', responseBody = soapAck\<rparr>,
                       s', emitted)
                 else (Inr \<lparr>statusCode = 500, contentType = None,
                        responseBody = ''Internal Server Error''\<rparr>, s', emitted))
          else (Inr \<lparr>statusCode = 404, contentType = None, responseBody = ''Not Found''\<rparr>, s, []))"

text \<open>
  The method and pathname the handler accepts, its two fixed responses, and requests and
  a body for the examples; the body holds one block whose time attribute is not a date.
\<close>

definition pushEndpoint :: "string \<Rightarrow> string option \<Rightarrow> bool" where
  "pushEndpoint method pathname =
     (method = ''POST'' \<and> (case pathname of None \<Rightarrow> False | Some p \<Rightarrow> startsWith p ''/events/''))"

definition okResponse :: HttpResponse where
  "okResponse = \<lparr>statusCode = 200, contentType = Some ''text/xml'', responseBody = soapAck\<rparr>"

definition notFoundResponse :: HttpResponse where
  "notFoundResponse = \<lparr>statusCode = 404, contentType = None, responseBody = ''Not Found''\<rparr>"

definition postEvents :: HttpRequest where
  "postEvents = \<lparr>httpMethod = ''POST'', url = ''/events/1700000000000''\<rparr>"

definition getEvents :: HttpRequest where
  "getEvents = \<lparr>httpMethod = ''GET'', url = ''/events/1700000000000''\<rparr>"

definition postUndecodable :: HttpRequest where
  "postUndecodable = \<lparr>httpMethod = ''POST'', url = ''http://%E0@camera/events/1700000000000''\<rparr>"

definition badTimeBody :: string where
  "badTimeBody =
     ''<wsnt:NotificationMessage><wsnt:Topic>tns1:VideoSource/MotionAlarm</wsnt:Topic>'' @
     ''<tt:Message UtcTime='' @ dquote @ ''yesterday'' @ dquote @ ''></tt:Message>'' @
     ''</wsnt:NotificationMessage>''"

section \<open>Alert delivery: \<open>AlertService.sendWebhook\<close> and \<open>sendAlert\<close>\<close>

record AlertConfig =
  enabled :: bool
  webhookUrl :: string
  timeout :: int
  retryAttempts :: int
  retryDelay :: int
  throttling :: ThrottleConfig

record AlertService =
  isEnabled :: bool
  alertCounter :: int
  throttleMap :: throttleMap

text \<open>
  What an alert does to the outside: a \<open>fetch\<close> call (with the number of the attempt),
  a wait between attempts, and the two events the service emits, with the id of the
  event they are about.
\<close>

datatype effect =
  Fetch int
| Delay int
| AlertSent "int \<times> string"
| AlertFailed "int \<times> string"

datatype deliveryError = DeliveryError int | PayloadError

fun isFetch :: "effect \<Rightarrow> bool" where
  "isFetch (Fetch k) = True"
| "isFetch e = False"

definition webhookCalls :: "effect list \<Rightarrow> nat" where
  "webhookCalls effs = length (filter isFetch effs)"

text \<open>
  An attempt succeeds when \<open>fetch\<close> resolves with \<open>response.ok\<close>, a status from 200 to
  299; a rejected \<open>fetch\<close> (network error, or the abort signal of the timeout) and any
  other status end in the \<open>catch\<close> of the loop.
\<close>

definition responseOk :: "int \<Rightarrow> bool" where
  "responseOk status = (200 \<le> status \<and> status \<le> 299)"

definition attemptSucceeds :: "int settled \<Rightarrow> bool" where
  "attemptSucceeds r = (case r of Resolves status \<Rightarrow> responseOk status | Rejects \<Rightarrow> False)"

text \<open>
  \<open>AbortSignal.timeout(delay)\<close> throws a \<open>RangeError\<close> unless \<open>delay\<close> is an integer
  from 0 to \<open>2^32 - 1\<close>. \<open>sendWebhook\<close> evaluates it inside the \<open>try\<close> of each attempt,
  while it builds the arguments of \<open>fetch\<close>: when it throws, the attempt has failed
  before \<open>fetch\<close> is called.
\<close>

definition timeoutAccepted :: "int \<Rightarrow> bool" where
  "timeoutAccepted delay = (0 \<le> delay \<and> delay \<le> 4294967295)"

text \<open>
  The loop of \<open>sendWebhook\<close> from attempt number \<open>attempt\<close> on; \<open>fetch k\<close> is how the
  call of \<open>fetch\<close> in attempt \<open>k\<close> settles. The body of the request is the payload
  printed by \<open>JSON.stringify\<close>; the payload holds texts and the plain objects read from
  the notification, which it prints. The error carries the number of attempts the
  message names.
\<close>

function sendWebhookFrom ::
  "AlertConfig \<Rightarrow> (int \<Rightarrow> int settled) \<Rightarrow> int \<Rightarrow> (deliveryError + unit) \<times> effect list" where
  "sendWebhookFrom cfg fetch attempt =
     (if attempt \<le> retryAttempts cfg then
        (if timeoutAccepted (timeout cfg) \<and> attemptSucceeds (fetch attempt)
         then (Inr (), [Fetch attempt])
         else
           (case sendWebhookFrom cfg fetch (attempt + 1) of
              (res, effs) \<Rightarrow>
                (res,
                 (if timeoutAccepted (timeout cfg) then [Fetch attempt] else []) @
                 (if attempt < retryAttempts cfg then [Delay (retryDelay cfg)] else []) @ effs)))
      else (Inl (DeliveryError (retryAttempts cfg)), []))"
  by pat_completeness auto
termination
  by (relation "measure (\<lambda>(cfg, fetch, attempt). nat (retryAttempts cfg + 1 - attempt))") auto

declare sendWebhookFrom.simps [simp del]

definition sendWebhook ::
  "AlertConfig \<Rightarrow> (int \<Rightarrow> int settled) \<Rightarrow> (deliveryError + unit) \<times> effect list" where
  "sendWebhook cfg fetch = sendWebhookFrom cfg fetch 1"

datatype severity = Low | Medium | High | Critical

definition determineSeverity :: "string \<Rightarrow> severity" where
  "determineSeverity eventType =
     (let t = toLowerCase eventType in
      if t = ''peopledetection'' then High
      else if t = ''tamper'' \<or> t = ''tampering'' then Critical
      else if t = ''motionalarm'' \<or> t = ''motion'' then Medium
      else if t = ''objectdetection'' then Medium
      else if t = ''device'' then Low
      else Medium)"

record AlertPayload =
  ap_eventId :: "int \<times> string"
  ap_eventType :: string
  ap_timestamp :: int
  ap_topic :: string
  ap_severity :: severity

text \<open>\<open>createAlertPayload\<close>; formatting the timestamp throws for an invalid date.\<close>

definition createAlertPayload :: "ProcessedEvent \<Rightarrow> deliveryError + AlertPayload" where
  "createAlertPayload event =
     (case ev_timestamp event of
        None \<Rightarrow> Inl PayloadError
      | Some ms \<Rightarrow>
          Inr \<lparr>ap_eventId = ev_id event, ap_eventType = ev_type event, ap_timestamp = ms,
               ap_topic = ev_topic event, ap_severity = determineSeverity (ev_type event)\<rparr>)"

text \<open>
  \<open>sendAlert\<close> in its two parts. \<open>admitAlert\<close> is the part before the \<open>try\<close>: the
  checks and the throttle, at clock reading \<open>now\<close>; it tells whether the delivery is
  attempted. \<open>deliverAlert\<close> is the \<open>try\<close> with its \<open>catch\<close>.
\<close>

definition admitAlert ::
  "AlertConfig \<Rightarrow> int \<Rightarrow> ProcessedEvent \<Rightarrow> AlertService \<Rightarrow> bool \<times> AlertService" where
  "admitAlert cfg now event s =
     (if \<not> isEnabled s then (False, s)
      else if webhookUrl cfg = [] then (False, s)
      else if throttlingEnabled (throttling cfg) then
        (case shouldSendAlert (throttling cfg) (ev_type event) now (throttleMap s) of
           (ok, tm') \<Rightarrow> (ok, s\<lparr>throttleMap := tm'\<rparr>))
      else (True, s))"

definition deliverAlert ::
  "AlertConfig \<Rightarrow> (int \<Rightarrow> int settled) \<Rightarrow> ProcessedEvent \<Rightarrow> AlertService
     \<Rightarrow> AlertService \<times> effect list" where
  "deliverAlert cfg fetch event s =
     (case createAlertPayload event of
        Inl err \<Rightarrow> (s, [AlertFailed (ev_id event)])
      | Inr alertPayload \<Rightarrow>
          (case sendWebhook cfg fetch of
             (Inr u, effs) \<Rightarrow>
               (s\<lparr>alertCounter := alertCounter s + 1\<rparr>, effs @ [AlertSent (ev_id event)])
           | (Inl err, effs) \<Rightarrow> (s, effs @ [AlertFailed (ev_id event)])))"

definition sendAlert ::
  "AlertConfig \<Rightarrow> int \<Rightarrow> (int \<Rightarrow> int settled) \<Rightarrow> ProcessedEvent \<Rightarrow> AlertService
     \<Rightarrow> AlertService \<times> effect list" where
  "sendAlert cfg now fetch event s =
     (case admitAlert cfg now event s of
        (go, s1) \<Rightarrow> if go then deliverAlert cfg fetch event s1 else (s1, []))"

text \<open>
  \<open>ONVIFApp.handleEvent\<close>, the listener that the application registers for every
  event of the event service, for an application with an alert service. It calls
  \<open>sendAlert\<close> when the alert service is enabled; the device information it fetches
  first only fills a field of the payload, and a failure to fetch it is replaced by
  \<open>null\<close>. The listener is called once for each event and is not awaited, so the calls
  for different events are independent of each other.
\<close>

definition handleEvent ::
  "AlertConfig \<Rightarrow> int \<Rightarrow> (int \<Rightarrow> int settled) \<Rightarrow> ProcessedEvent \<Rightarrow> AlertService
     \<Rightarrow> AlertService \<times> effect list" where
  "handleEvent cfg now fetch event s =
     (if isEnabled s then sendAlert cfg now fetch event s else (s, []))"

text \<open>
  A configuration, a service and events for the examples, two webhooks, and the
  configuration with a timeout that \<open>AbortSignal.timeout\<close> refuses.
\<close>

definition sampleAlertConfig :: AlertConfig where
  "sampleAlertConfig =
     \<lparr>enabled = True, webhookUrl = ''https://hooks.example/alert'', timeout = 5000,
      retryAttempts = 3, retryDelay = 1000, throttling = scenarioConfig\<rparr>"

definition freshAlertService :: AlertService where
  "freshAlertService = \<lparr>isEnabled = True, alertCounter = 0, throttleMap = Map.empty\<rparr>"

definition motionEvent :: "nat \<Rightarrow> ProcessedEvent" where
  "motionEvent k = processPolledEvent sampleRuntime k ''tns1:VideoSource/MotionAlarm''"

definition tamperEvent :: "nat \<Rightarrow> ProcessedEvent" where
  "tamperEvent k = processPolledEvent sampleRuntime k ''tns1:VideoSource/Tamper''"

definition failTwice :: "int \<Rightarrow> int settled" where
  "failTwice k = (if k = 1 then Resolves 503 else if k = 2 then Rejects else Resolves 200)"

definition failAlways :: "int \<Rightarrow> int settled" where
  "failAlways k = (if k = 2 then Rejects else Resolves 500)"

definition badTimeoutConfig :: AlertConfig where
  "badTimeoutConfig = sampleAlertConfig\<lparr>timeout := - 1\<rparr>"

definition admittedService :: AlertService where
  "admittedService =
     fst (sendAlert sampleAlertConfig 1700000000000 failAlways (motionEvent 0) freshAlertService)"

section \<open>Properties of the throttle\<close>

subsection \<open>One call\<close>

lemma shouldSendAlert_Some:
  "tm c = Some r \<Longrightarrow>
   shouldSendAlert cfg c t tm =
     (fst (throttleRecord cfg t r), tm(c \<mapsto> snd (throttleRecord cfg t r)))"
  by (simp add: shouldSendAlert_def Let_def split: prod.splits)

lemma shouldSendAlert_None:
  "tm c = None \<Longrightarrow>
   shouldSendAlert cfg c t tm =
     (fst (throttleRecord cfg t (newRecord t)), tm(c \<mapsto> snd (throttleRecord cfg t (newRecord t))))"
  by (simp add: shouldSendAlert_def Let_def split: prod.splits)

lemma shouldSendAlert_record:
  "\<exists>r. shouldSendAlert cfg c t tm =
     (fst (throttleRecord cfg t r), tm(c \<mapsto> snd (throttleRecord cfg t r)))"
  using shouldSendAlert_None [of tm c cfg t] shouldSendAlert_Some [of tm c _ cfg t]
  by (cases "tm c") auto

lemma shouldSendAlert_other:
  "c' \<noteq> c \<Longrightarrow> snd (shouldSendAlert cfg c' t tm) c = tm c"
  by (simp add: shouldSendAlert_def Let_def split: prod.splits)

lemma shouldSendAlert_same:
  "shouldSendAlert cfg c t tm = (ok, tm') \<Longrightarrow>
   throttleRecord cfg t (case tm c of None \<Rightarrow> newRecord t | Some r \<Rightarrow> r) = (ok, r') \<Longrightarrow>
   tm' c = Some r'"
  by (auto simp add: shouldSendAlert_def Let_def split: prod.splits)

lemma shouldSendAlert_refines:
  "(case shouldSendAlert cfg c T tm of (ok, tm') \<Rightarrow> (ok, map_option specView (tm' c))) =
   (case spec_throttle (windowMs cfg) (maxAlertsPerWindow cfg) (debounceMs cfg) T
           (map_option specView (tm c)) of
      (ok, r) \<Rightarrow> (ok, Some r))"
  by (cases "tm c")
     (simp_all add: shouldSendAlert_def spec_throttle_def throttleRecord_def gateRecord_def
        resetWindow_def newRecord_def specView_def Let_def)

lemma rate_limited_no_mutation:
  "maxAlertsPerWindow cfg \<le> count (resetWindow cfg T r) \<Longrightarrow>
   throttleRecord cfg T r = (False, resetWindow cfg T r)"
  by (simp add: throttleRecord_def gateRecord_def)

lemma scenario_from_positive_clock:
  "0 < B \<Longrightarrow>
   throttleRun scenarioConfig Map.empty (scenarioEvents B) =
     [True, False, False, False, False, True]"
  by (simp add: scenarioEvents_def scenarioConfig_def shouldSendAlert_def throttleRecord_def
        gateRecord_def resetWindow_def newRecord_def Let_def)

lemma throttleRecord_last_mono:
  "L \<le> lastEventTime r \<Longrightarrow> L \<le> t \<Longrightarrow> L \<le> lastEventTime (snd (throttleRecord cfg t r))"
  by (auto simp add: throttleRecord_def gateRecord_def resetWindow_def Let_def split: if_splits)

lemma throttleRecord_admit_last:
  "fst (throttleRecord cfg t r) \<Longrightarrow> lastEventTime (snd (throttleRecord cfg t r)) = t"
  by (auto simp add: throttleRecord_def gateRecord_def resetWindow_def Let_def split: if_splits)

lemma throttleRecord_debounced:
  "0 < L \<Longrightarrow> L \<le> lastEventTime r \<Longrightarrow> t - L < debounceMs cfg \<Longrightarrow> \<not> fst (throttleRecord cfg t r)"
  by (auto simp add: throttleRecord_def gateRecord_def resetWindow_def Let_def split: if_splits)

lemma shouldSendAlert_admit_last:
  assumes "shouldSendAlert cfg c t tm = (True, tm')"
  shows "\<exists>r'. tm' c = Some r' \<and> lastEventTime r' = t"
proof -
  obtain r where r: "shouldSendAlert cfg c t tm = (fst (throttleRecord cfg t r), tm(c \<mapsto> snd (throttleRecord cfg t r)))"
    using shouldSendAlert_record by blast
  with assms have "fst (throttleRecord cfg t r)" "tm' = tm(c \<mapsto> snd (throttleRecord cfg t r))"
    by simp_all
  with throttleRecord_admit_last [of cfg t r] show ?thesis by simp
qed

subsection \<open>Admissions in an interval\<close>

lemma admittedIn_Nil: "admittedIn cfg tm [] c a = 0"
  by (simp add: admittedIn_def)

lemma admittedIn_Cons:
  "admittedIn cfg tm ((c', t) # es) c a =
     (case shouldSendAlert cfg c' t tm of (ok, tm') \<Rightarrow>
        (if ok \<and> c' = c \<and> a \<le> t \<and> t < a + windowMs cfg then 1 else 0) + admittedIn cfg tm' es c a)"
  by (auto simp add: admittedIn_def counted_def split: prod.splits)

lemma admittedIn_late:
  "\<forall>e \<in> set es. a + windowMs cfg \<le> snd e \<Longrightarrow> admittedIn cfg tm es c a = 0"
proof (induction es arbitrary: tm)
  case Nil
  then show ?case by (simp add: admittedIn_Nil)
next
  case (Cons e es)
  obtain c' t where e: "e = (c', t)" by (cases e)
  from Cons.prems have "a + windowMs cfg \<le> t" "\<forall>e \<in> set es. a + windowMs cfg \<le> snd e"
    by (simp_all add: e)
  then show ?case using Cons.IH
    by (simp add: e admittedIn_Cons split: prod.splits)
qed

lemma step_bound:
  assumes "throttleRecord cfg t r = (ok, r')"
  shows "(if ok \<and> a \<le> t \<and> t < a + windowMs cfg then 1 else 0) + windowBound cfg a (Some r') \<le> windowBound cfg a (Some r)
     \<or> (a + windowMs cfg \<le> t \<and> a \<le> windowStart r)"
  using assms
  by (auto simp add: throttleRecord_def gateRecord_def resetWindow_def windowBound_def remaining_def Let_def split: if_splits)

lemma step_bound_new:
  assumes "throttleRecord cfg t (newRecord t) = (ok, r')"
  shows "(if ok \<and> a \<le> t \<and> t < a + windowMs cfg then 1 else 0) + windowBound cfg a (Some r') \<le> windowBound cfg a None"
  using assms
  by (auto simp add: throttleRecord_def gateRecord_def resetWindow_def windowBound_def remaining_def newRecord_def Let_def split: if_splits)

lemma admittedIn_windowBound:
  "sorted (map snd es) \<Longrightarrow> admittedIn cfg tm es c a \<le> windowBound cfg a (tm c)"
proof (induction es arbitrary: tm)
  case Nil
  then show ?case by (simp add: admittedIn_Nil)
next
  case (Cons e es)
  obtain c' t where e: "e = (c', t)" by (cases e)
  obtain ok tm' where step: "shouldSendAlert cfg c' t tm = (ok, tm')" by (cases "shouldSendAlert cfg c' t tm")
  from Cons.prems have srt: "sorted (map snd es)" and later: "\<forall>x \<in> set es. t \<le> snd x"
    by (auto simp add: e)
  have IH: "admittedIn cfg tm' es c a \<le> windowBound cfg a (tm' c)"
    using Cons.IH [OF srt] .
  have expand: "admittedIn cfg tm (e # es) c a =
      (if ok \<and> c' = c \<and> a \<le> t \<and> t < a + windowMs cfg then 1 else 0) + admittedIn cfg tm' es c a"
    by (simp add: e admittedIn_Cons step)
  show ?case
  proof (cases "c' = c")
    case False
    then have "tm' c = tm c" using shouldSendAlert_other [of c' c cfg t tm] step by simp
    with IH False show ?thesis by (simp add: expand)
  next
    case True
    obtain r' where r': "throttleRecord cfg t (case tm c of None \<Rightarrow> newRecord t | Some r \<Rightarrow> r) = (ok, r')"
      using step True by (auto simp add: shouldSendAlert_def Let_def split: prod.splits)
    have tm': "tm' c = Some r'" using shouldSendAlert_same [of cfg c t tm ok tm' r'] r' step True by simp
    show ?thesis
    proof (cases "tm c")
      case None
      with r' have "throttleRecord cfg t (newRecord t) = (ok, r')" by simp
      from step_bound_new [OF this, of a] IH tm' None True show ?thesis
        by (simp add: expand split: if_splits)
    next
      case (Some r)
      with r' have "throttleRecord cfg t r = (ok, r')" by simp
      from step_bound [OF this, of a]
      consider (dec) "(if ok \<and> a \<le> t \<and> t < a + windowMs cfg then 1 else 0) + windowBound cfg a (Some r') \<le> windowBound cfg a (Some r)"
        | (late) "a + windowMs cfg \<le> t" by blast
      then show ?thesis
      proof cases
        case dec
        with IH tm' Some True show ?thesis
          by (simp add: expand split: if_splits)
      next
        case late
        with later have "\<forall>x \<in> set es. a + windowMs cfg \<le> snd x" by auto
        from admittedIn_late [OF this] late True show ?thesis
          by (simp add: expand)
      qed
    qed
  qed
qed

subsection \<open>Debounce along a run\<close>

lemma debounce_holds:
  assumes "0 < L"
  shows "tm c = Some r \<Longrightarrow> L \<le> lastEventTime r \<Longrightarrow> \<forall>e \<in> set es. L \<le> snd e \<Longrightarrow>
    j < length es \<Longrightarrow> fst (es ! j) = c \<Longrightarrow> snd (es ! j) - L < debounceMs cfg \<Longrightarrow>
    \<not> throttleRun cfg tm es ! j"
proof (induction es arbitrary: tm r j)
  case Nil
  then show ?case by simp
next
  case (Cons e es)
  obtain c' t where e: "e = (c', t)" by (cases e)
  obtain ok tm' where step: "shouldSendAlert cfg c' t tm = (ok, tm')" by (cases "shouldSendAlert cfg c' t tm")
  have run: "throttleRun cfg tm (e # es) = ok # throttleRun cfg tm' es" by (simp add: e step)
  show ?case
  proof (cases j)
    case 0
    with Cons.prems have c: "c' = c" and "t - L < debounceMs cfg" by (simp_all add: e)
    with throttleRecord_debounced [OF assms Cons.prems(2), of t cfg] have "\<not> fst (throttleRecord cfg t r)" by simp
    with step c Cons.prems(1) have "\<not> ok" by (simp add: shouldSendAlert_Some)
    then show ?thesis by (simp add: run 0)
  next
    case (Suc j')
    have "\<exists>r'. tm' c = Some r' \<and> L \<le> lastEventTime r'"
    proof (cases "c' = c")
      case True
      from Cons.prems(3) have "L \<le> t" by (simp add: e)
      from throttleRecord_last_mono [OF Cons.prems(2) this, of cfg] step True Cons.prems(1) show ?thesis
        by (auto simp add: shouldSendAlert_Some)
    next
      case False
      from shouldSendAlert_other [OF False, of cfg t tm] step Cons.prems(1,2) show ?thesis by simp
    qed
    then obtain r' where r': "tm' c = Some r'" "L \<le> lastEventTime r'" by blast
    from Cons.prems Suc have "\<forall>e \<in> set es. L \<le> snd e" "j' < length es" "fst (es ! j') = c" "snd (es ! j') - L < debounceMs cfg"
      by simp_all
    from Cons.IH [of tm' r' j'] r' this show ?thesis by (simp add: run Suc)
  qed
qed

lemma debounce_pair:
  "sorted (map snd es) \<Longrightarrow> i < j \<Longrightarrow> j < length es \<Longrightarrow> fst (es ! i) = fst (es ! j) \<Longrightarrow>
   0 < snd (es ! i) \<Longrightarrow> snd (es ! j) - snd (es ! i) < debounceMs cfg \<Longrightarrow>
   throttleRun cfg tm es ! i \<Longrightarrow> \<not> throttleRun cfg tm es ! j"
proof (induction es arbitrary: tm i j)
  case Nil
  then show ?case by simp
next
  case (Cons e es)
  obtain c t where e: "e = (c, t)" by (cases e)
  obtain ok tm' where step: "shouldSendAlert cfg c t tm = (ok, tm')" by (cases "shouldSendAlert cfg c t tm")
  have run: "throttleRun cfg tm (e # es) = ok # throttleRun cfg tm' es" by (simp add: e step)
  from Cons.prems(2) obtain j' where j: "j = Suc j'" by (cases j) auto
  from Cons.prems(1) have srt: "sorted (map snd es)" and later: "\<forall>x \<in> set es. t \<le> snd x"
    by (auto simp add: e)
  show ?case
  proof (cases i)
    case 0
    from Cons.prems(7) have ok: "ok" by (simp add: run 0)
    from Cons.prems(5) have pos: "0 < t" by (simp add: e 0)
    from step ok have "shouldSendAlert cfg c t tm = (True, tm')" by simp
    from shouldSendAlert_admit_last [OF this] obtain r' where r': "tm' c = Some r'" "lastEventTime r' = t"
      by blast
    from Cons.prems(3) have a: "j' < length es" by (simp add: j)
    from Cons.prems(4) have b: "fst (es ! j') = c" by (simp add: e 0 j)
    from Cons.prems(6) have d: "snd (es ! j') - t < debounceMs cfg" by (simp add: e 0 j)
    from r'(2) have "t \<le> lastEventTime r'" by simp
    from debounce_holds [of t tm' c r' es j' cfg] pos r'(1) this later a b d show ?thesis
      by (simp add: run j)
  next
    case (Suc i')
    from Cons.prems Suc j have "i' < j'" "j' < length es" "fst (es ! i') = fst (es ! j')"
      "0 < snd (es ! i')" "snd (es ! j') - snd (es ! i') < debounceMs cfg" "throttleRun cfg tm' es ! i'"
      by (simp_all add: run)
    from Cons.IH [of i' j' tm'] srt this show ?thesis by (simp add: run j)
  qed
qed

subsection \<open>The claims about the throttle\<close>

text \<open>
  Claim C1. A call of \<open>shouldSendAlert\<close> for an event of type \<open>c\<close> at clock reading \<open>T\<close>
  returns what the four steps of the specification return on \<open>c\<close>'s record (created with
  count 0, window start \<open>T\<close> and last admitted time 0 when absent), and leaves in the map
  the record those steps leave: the window reset first, then the rate limit, then the
  debounce gate, then the admission. The records of the other event types are not touched,
  and a rate-limited call leaves the record as the window reset left it. With
  \<open>windowMs = 60000\<close>, \<open>maxAlertsPerWindow = 5\<close> and \<open>debounceMs = 5000\<close>, six events of one
  type that arrive 0, 1000, 2000, 3000, 4000 and 5000 milliseconds after the clock reading
  \<open>B\<close> of the first have the first and the last admitted and the four between
  suppressed, for every reading \<open>B\<close> that \<open>Date.now()\<close> gives (a positive number).
\<close>

theorem shouldSendAlert_order:
  "(case shouldSendAlert cfg c T tm of (ok, tm') \<Rightarrow> (ok, map_option specView (tm' c))) =
     (case spec_throttle (windowMs cfg) (maxAlertsPerWindow cfg) (debounceMs cfg) T
             (map_option specView (tm c)) of
        (ok, r) \<Rightarrow> (ok, Some r))
   \<and> (c' \<noteq> c \<longrightarrow> snd (shouldSendAlert cfg c T tm) c' = tm c')
   \<and> (maxAlertsPerWindow cfg \<le> count (resetWindow cfg T r) \<longrightarrow>
        throttleRecord cfg T r = (False, resetWindow cfg T r))
   \<and> (0 < B \<longrightarrow>
        throttleRun scenarioConfig Map.empty (scenarioEvents B) =
          [True, False, False, False, False, True])"
proof (intro conjI impI)
  show "(case shouldSendAlert cfg c T tm of (ok, tm') \<Rightarrow> (ok, map_option specView (tm' c))) =
     (case spec_throttle (windowMs cfg) (maxAlertsPerWindow cfg) (debounceMs cfg) T
             (map_option specView (tm c)) of
        (ok, r) \<Rightarrow> (ok, Some r))"
    by (rule shouldSendAlert_refines)
next
  assume "c' \<noteq> c"
  then show "snd (shouldSendAlert cfg c T tm) c' = tm c'"
    by (simp add: shouldSendAlert_other)
next
  assume "maxAlertsPerWindow cfg \<le> count (resetWindow cfg T r)"
  then show "throttleRecord cfg T r = (False, resetWindow cfg T r)"
    by (rule rate_limited_no_mutation)
next
  assume "0 < B"
  then show "throttleRun scenarioConfig Map.empty (scenarioEvents B) =
      [True, False, False, False, False, True]"
    by (rule scenario_from_positive_clock)
qed

theorem shouldSendAlert_order_witness:
  "''tamper'' \<noteq> ''motionalarm''
   \<and> snd (shouldSendAlert scenarioConfig ''motionalarm'' 1000 Map.empty) ''tamper'' = None
   \<and> maxAlertsPerWindow scenarioConfig \<le> count (resetWindow scenarioConfig 1000 fullRecord)
   \<and> throttleRecord scenarioConfig 1000 fullRecord = (False, fullRecord)
   \<and> (0::int) < 1000
   \<and> throttleRun scenarioConfig Map.empty (scenarioEvents 1000) =
        [True, False, False, False, False, True]"
  using shouldSendAlert_order [where cfg = scenarioConfig and c = "''motionalarm''" and T = 1000
      and tm = Map.empty and c' = "''tamper''" and r = fullRecord and B = 1000]
  by (simp add: scenarioConfig_def fullRecord_def resetWindow_def)

text \<open>
  Claim C2. The windows of the throttle are fixed ones: a window starts with the first
  event that arrives \<open>windowMs\<close> or more after the start of the window before. For events
  that arrive in the order of their clock readings, the number of admitted events of one
  type in any interval of length \<open>windowMs\<close> is at most twice \<open>maxAlertsPerWindow\<close>
  (and none when that limit is negative).
\<close>

theorem rolling_window_bound:
  "sorted (map snd es) \<Longrightarrow> admittedIn cfg Map.empty es c a \<le> 2 * nat (maxAlertsPerWindow cfg)"
  using admittedIn_windowBound [where es = es and cfg = cfg and tm = Map.empty and c = c and a = a]
  by (simp add: windowBound_def)

theorem rolling_window_bound_witness:
  "sorted (map snd burstEvents) \<and>
   admittedIn scenarioConfig Map.empty burstEvents ''motionalarm'' 40000 \<le> 2 * nat (maxAlertsPerWindow scenarioConfig)"
  using rolling_window_bound [where es = burstEvents and cfg = scenarioConfig
      and c = "''motionalarm''" and a = 40000]
  by (simp add: burstEvents_def)

text \<open>
  The limit \<open>maxAlertsPerWindow\<close> itself does not hold for every interval of length
  \<open>windowMs\<close>: with the limit 5 and a window of 60000, four admissions at the end of one
  window and five at the start of the next lie in the interval from 40000 to 100000.
\<close>

theorem rolling_window_exceeded:
  "\<not> int (admittedIn scenarioConfig Map.empty burstEvents ''motionalarm'' 40000)
       \<le> maxAlertsPerWindow scenarioConfig"
  by (simp add: admittedIn_def counted_def burstEvents_def scenarioConfig_def shouldSendAlert_def throttleRecord_def
        gateRecord_def resetWindow_def newRecord_def Let_def)

text \<open>
  Claim C5. For events that arrive in the order of their clock readings: when an event
  with a positive clock reading is admitted, no later event of the same type whose clock
  reading is less than \<open>debounceMs\<close> behind it is admitted. So two events of one type
  that arrive less than \<open>debounceMs\<close> apart, at positive clock readings, are never both
  admitted.
\<close>

theorem debounce_gap:
  "sorted (map snd es) \<Longrightarrow> i < j \<Longrightarrow> j < length es \<Longrightarrow> fst (es ! i) = fst (es ! j) \<Longrightarrow>
   0 < snd (es ! i) \<Longrightarrow> snd (es ! j) - snd (es ! i) < debounceMs cfg \<Longrightarrow>
   throttleRun cfg tm es ! i \<Longrightarrow> \<not> throttleRun cfg tm es ! j"
  by (rule debounce_pair)

theorem debounce_gap_witness:
  "sorted (map snd (scenarioEvents 1000)) \<and> (0::nat) < 1 \<and> 1 < length (scenarioEvents 1000) \<and>
   fst (scenarioEvents 1000 ! 0) = fst (scenarioEvents 1000 ! 1) \<and>
   0 < snd (scenarioEvents 1000 ! 0) \<and>
   snd (scenarioEvents 1000 ! 1) - snd (scenarioEvents 1000 ! 0) < debounceMs scenarioConfig \<and>
   throttleRun scenarioConfig Map.empty (scenarioEvents 1000) ! 0 \<and>
   \<not> throttleRun scenarioConfig Map.empty (scenarioEvents 1000) ! 1"
  using debounce_gap [where es = "scenarioEvents 1000" and i = 0 and j = 1
      and cfg = scenarioConfig and tm = Map.empty]
  by (simp add: scenarioEvents_def scenarioConfig_def shouldSendAlert_def throttleRecord_def
        gateRecord_def resetWindow_def newRecord_def Let_def)

text \<open>
  The second of two events that arrive close together can be admitted: the debounce is
  counted from the last admitted event, not from the last arrival. With
  \<open>debounceMs = 5000\<close>, an event 4500 after an admitted one is suppressed, and the event
  500 after that one is admitted. Also, an event admitted at the clock reading 0 does not
  debounce the next one: both events, 1000 apart, are admitted.
\<close>

theorem second_of_close_pair_admitted:
  "throttleRun scenarioConfig Map.empty
     [(''motionalarm'', 1700000000000), (''motionalarm'', 1700000004500),
      (''motionalarm'', 1700000005000)] = [True, False, True]
   \<and> (1700000005000::int) - 1700000004500 < debounceMs scenarioConfig
   \<and> throttleRun scenarioConfig Map.empty [(''motionalarm'', 0), (''motionalarm'', 1000)] =
        [True, True]
   \<and> (1000::int) - 0 < debounceMs scenarioConfig"
  by (simp add: scenarioConfig_def shouldSendAlert_def throttleRecord_def gateRecord_def
        resetWindow_def newRecord_def Let_def)

section \<open>Properties of the classification\<close>

lemma includes_str_sublist: "includes_str s pat = sublist pat s"
  by (induction s) (auto simp add: startsWith_def sublist_Cons_right)

lemma split_str_nonempty: "split_str sep s \<noteq> []"
  by (induction s) (auto split: list.splits)

lemma split_str_no_sep: "sep \<notin> set s \<Longrightarrow> split_str sep s = [s]"
  by (induction s) (auto split: list.splits)

lemma split_str_last_segment:
  "sep \<notin> set seg \<Longrightarrow>
   last (split_str sep (pre @ sep # seg)) = seg \<and> 2 \<le> length (split_str sep (pre @ sep # seg))"
proof (induction pre)
  case Nil
  then show ?case by (simp add: split_str_no_sep)
next
  case (Cons x pre)
  then have IH: "last (split_str sep (pre @ sep # seg)) = seg"
    "2 \<le> length (split_str sep (pre @ sep # seg))" by simp_all
  show ?case
  proof (cases "x = sep")
    case True
    with IH show ?thesis by (simp add: split_str_nonempty)
  next
    case False
    obtain p ps where ps: "split_str sep (pre @ sep # seg) = p # ps"
      using split_str_nonempty [of sep "pre @ sep # seg"] by (cases "split_str sep (pre @ sep # seg)") auto
    with IH have "ps \<noteq> []" "last ps = seg" by auto
    with False ps show ?thesis by (cases ps) simp_all
  qed
qed

text \<open>
  Claim C4. \<open>extractEventType\<close> maps the empty topic to \<open>unknown\<close>. A topic that is
  not empty and has no \<open>/\<close> is mapped as a whole: lowercased, with an underscore in the
  place of each character that is not in \<open>a-z0-9\<close>. A topic with a \<open>/\<close> is mapped by the
  segment behind its last \<open>/\<close>, without regard to case: a segment that contains
  \<open>people\<close>, \<open>human\<close> or \<open>person\<close> gives \<open>peopledetection\<close>; otherwise a segment
  that contains \<open>object\<close>, in a topic that contains \<open>analytics\<close>, gives
  \<open>objectdetection\<close>; otherwise the segment is lowercased, with an underscore in the
  place of each character that is not in \<open>a-z0-9\<close>.
\<close>

theorem extractEventType_cases:
  "extractEventType [] = ''unknown''
   \<and> (topic \<noteq> [] \<and> CHR ''/'' \<notin> set topic \<longrightarrow>
        extractEventType topic = replaceSpecial (toLowerCase topic))
   \<and> (CHR ''/'' \<notin> set seg \<longrightarrow>
        extractEventType (pre @ CHR ''/'' # seg) =
          (if sublist ''people'' (toLowerCase seg) \<or> sublist ''human'' (toLowerCase seg) \<or>
              sublist ''person'' (toLowerCase seg)
           then ''peopledetection''
           else if sublist ''object'' (toLowerCase seg) \<and>
                   sublist ''analytics'' (toLowerCase (pre @ CHR ''/'' # seg))
           then ''objectdetection''
           else replaceSpecial (toLowerCase seg)))"
proof (intro conjI impI)
  show "extractEventType [] = ''unknown''" by (simp add: extractEventType_def)
next
  assume "topic \<noteq> [] \<and> CHR ''/'' \<notin> set topic"
  then show "extractEventType topic = replaceSpecial (toLowerCase topic)"
    by (simp add: extractEventType_def split_str_no_sep)
next
  assume "CHR ''/'' \<notin> set seg"
  from split_str_last_segment [OF this, of pre]
  show "extractEventType (pre @ CHR ''/'' # seg) =
          (if sublist ''people'' (toLowerCase seg) \<or> sublist ''human'' (toLowerCase seg) \<or>
              sublist ''person'' (toLowerCase seg)
           then ''peopledetection''
           else if sublist ''object'' (toLowerCase seg) \<and>
                   sublist ''analytics'' (toLowerCase (pre @ CHR ''/'' # seg))
           then ''objectdetection''
           else replaceSpecial (toLowerCase seg))"
    by (simp add: extractEventType_def includes_str_sublist Let_def)
qed

theorem extractEventType_cases_witness:
  "''MotionAlarm'' \<noteq> [] \<and> CHR ''/'' \<notin> set ''MotionAlarm''
   \<and> extractEventType ''MotionAlarm'' = ''motionalarm''
   \<and> CHR ''/'' \<notin> set ''MotionAlarm''
   \<and> extractEventType ''tns1:VideoSource/MotionAlarm'' = ''motionalarm''"
proof -
  have a: "''MotionAlarm'' \<noteq> [] \<and> CHR ''/'' \<notin> set ''MotionAlarm''" by simp
  have b: "replaceSpecial (toLowerCase ''MotionAlarm'') = ''motionalarm''" by code_simp
  have c: "\<not> sublist ''people'' (toLowerCase ''MotionAlarm'')"
     "\<not> sublist ''human'' (toLowerCase ''MotionAlarm'')"
     "\<not> sublist ''person'' (toLowerCase ''MotionAlarm'')"
     "\<not> sublist ''object'' (toLowerCase ''MotionAlarm'')" by code_simp+
  from extractEventType_cases [where topic = "''MotionAlarm''" and seg = "''MotionAlarm''" and pre = "''tns1:VideoSource''"]
    a b c show ?thesis by simp
qed

text \<open>
  A topic without a path separator is not mapped to \<open>unknown\<close>, and a run of two
  special characters becomes two underscores. The topics named by the specification
  are mapped as it says.
\<close>

theorem extractEventType_without_separator:
  "CHR ''/'' \<notin> set ''MotionAlarm'' \<and> extractEventType ''MotionAlarm'' = ''motionalarm''
   \<and> extractEventType ''MotionAlarm'' \<noteq> ''unknown''
   \<and> extractEventType ''tns1:Device/Hardware--Failure'' = ''hardware__failure''"
  by code_simp

lemma extractEventType_examples:
  "extractEventType ''tns1:Analytics/PeopleDetection'' = ''peopledetection''"
  "extractEventType ''tns1:VideoAnalytics/ObjectDetection'' = ''objectdetection''"
  "extractEventType ''tns1:VideoSource/MotionAlarm'' = ''motionalarm''"
  "extractEventType [] = ''unknown''"
  by code_simp+

section \<open>Properties of the subscription manager\<close>

lemma pullSettled_rejected:
  "retryOnError p \<Longrightarrow> isRunning s \<Longrightarrow>
   pullSettled (Some p) rt Rejects s =
     (if retryCount s + 1 < maxRetries p then (s\<lparr>retryCount := retryCount s + 1\<rparr>, False, [])
      else if retryCount s + 1 = maxRetries p then (s\<lparr>retryCount := retryCount s + 1\<rparr>, True, [])
      else (s\<lparr>retryCount := retryCount s + 1, subscriptionActive := False\<rparr>, False, []))"
  by (simp add: pullSettled_def pollFailed_def Let_def)

lemma loopStep_tick_idle:
  "loopStep polling rt TimerTick (idleLoop s) =
     (if pollIssued polling s
      then Some (\<lparr>polls = \<lparr>service = s, inFlight = Suc 0\<rparr>, recreating = 0\<rparr>, [PullMessages])
      else Some (idleLoop s, []))"
  by (simp add: loopStep_def idleLoop_def timerTick_def)

lemma loopStep_inactive:
  "\<not> subscriptionActive (service (polls E)) \<Longrightarrow> loopStep polling rt TimerTick E = Some (E, [])"
  by (simp add: loopStep_def timerTick_def pollIssued_def)

lemma loopStep_rejected_one:
  "retryOnError p \<Longrightarrow> isRunning s \<Longrightarrow>
   loopStep (Some p) rt (PullSettles Rejects)
     \<lparr>polls = \<lparr>service = s, inFlight = Suc 0\<rparr>, recreating = 0\<rparr> =
     (if retryCount s + 1 < maxRetries p then Some (idleLoop (s\<lparr>retryCount := retryCount s + 1\<rparr>), [])
      else if retryCount s + 1 = maxRetries p
      then Some (\<lparr>polls = \<lparr>service = s\<lparr>retryCount := retryCount s + 1\<rparr>, inFlight = Suc 0\<rparr>,
                  recreating = Suc 0\<rparr>, [CreatePullPointSubscription])
      else Some (idleLoop (s\<lparr>retryCount := retryCount s + 1, subscriptionActive := False\<rparr>), []))"
  by (simp add: loopStep_def pullSettled_rejected idleLoop_def)

lemma failing_cycle_below:
  "retryOnError p \<Longrightarrow> isRunning s \<Longrightarrow> subscriptionActive s \<Longrightarrow> retryCount s + 1 < maxRetries p \<Longrightarrow>
   runLoop (Some p) rt (TimerTick # PullSettles Rejects # evs) (idleLoop s) =
     (case runLoop (Some p) rt evs (idleLoop (s\<lparr>retryCount := retryCount s + 1\<rparr>)) of
        None \<Rightarrow> None
      | Some (E2, others) \<Rightarrow> Some (E2, [PullMessages] # [] # others))"
  by (simp add: loopStep_tick_idle pollIssued_def loopStep_rejected_one split: option.splits)

lemma failing_cycle_at_max:
  "retryOnError p \<Longrightarrow> isRunning s \<Longrightarrow> subscriptionActive s \<Longrightarrow> retryCount s + 1 = maxRetries p \<Longrightarrow>
   runLoop (Some p) rt [TimerTick, PullSettles Rejects] (idleLoop s) =
     Some (\<lparr>polls = \<lparr>service = s\<lparr>retryCount := maxRetries p\<rparr>, inFlight = 1\<rparr>, recreating = 1\<rparr>,
           [[PullMessages], [CreatePullPointSubscription]])"
  by (simp add: loopStep_tick_idle pollIssued_def loopStep_rejected_one)

lemma failing_cycles:
  "retryOnError p \<Longrightarrow> isRunning s \<Longrightarrow> subscriptionActive s \<Longrightarrow>
   retryCount s + int k < maxRetries p \<Longrightarrow>
   runLoop (Some p) rt (concat (replicate k [TimerTick, PullSettles Rejects])) (idleLoop s) =
     Some (idleLoop (s\<lparr>retryCount := retryCount s + int k\<rparr>), concat (replicate k [[PullMessages], []]))"
proof (induction k arbitrary: s)
  case 0
  then show ?case by simp
next
  case (Suc k)
  let ?s1 = "s\<lparr>retryCount := retryCount s + 1\<rparr>"
  from Suc.prems have step:
    "runLoop (Some p) rt (TimerTick # PullSettles Rejects # concat (replicate k [TimerTick, PullSettles Rejects]))
       (idleLoop s) =
     (case runLoop (Some p) rt (concat (replicate k [TimerTick, PullSettles Rejects])) (idleLoop ?s1) of
        None \<Rightarrow> None
      | Some (E2, others) \<Rightarrow> Some (E2, [PullMessages] # [] # others))"
    by (intro failing_cycle_below) simp_all
  from Suc.prems have "runLoop (Some p) rt (concat (replicate k [TimerTick, PullSettles Rejects])) (idleLoop ?s1) =
     Some (idleLoop (?s1\<lparr>retryCount := retryCount ?s1 + int k\<rparr>), concat (replicate k [[PullMessages], []]))"
    by (intro Suc.IH) simp_all
  with step show ?case by (simp add: add.assoc)
qed

lemma idle_inactive:
  "\<not> subscriptionActive s \<Longrightarrow>
   runLoop polling rt evs (idleLoop s) =
     (if list_all (\<lambda>ev. ev = TimerTick) evs then Some (idleLoop s, replicate (length evs) []) else None)"
proof (induction evs)
  case Nil
  then show ?case by simp
next
  case (Cons ev evs)
  show ?case
  proof (cases ev)
    case TimerTick
    with Cons show ?thesis by (simp add: loopStep_tick_idle pollIssued_def)
  next
    case (PullSettles pull)
    then show ?thesis by (simp add: loopStep_def idleLoop_def)
  next
    case (CreateSettles gateway)
    then show ?thesis by (simp add: loopStep_def idleLoop_def)
  qed
qed

lemma emitPolled_quiet:
  "\<forall>e. \<not> listenerThrows rt e \<Longrightarrow>
   emitPolled rt es s = (s\<lparr>eventCounter := eventCounter s + int (length es)\<rparr>, es, False)"
proof (induction es arbitrary: s)
  case Nil
  then show ?case by simp
next
  case (Cons e es)
  from Cons.IH [OF Cons.prems] Cons.prems show ?case
    by (simp add: Let_def add.assoc)
qed

lemma pullSettled_resolved:
  "\<forall>e. \<not> listenerThrows rt e \<Longrightarrow>
   pullSettled polling rt (Resolves topics) s =
     (s\<lparr>eventCounter := eventCounter s + int (length topics), retryCount := 0\<rparr>, False,
      map (\<lambda>(k, topic). processPolledEvent rt k topic) (enumerate 0 topics))"
  by (simp add: pullSettled_def emitPolled_quiet)

text \<open>
  Claim C6. With \<open>retryOnError\<close> set and \<open>maxRetries\<close> at least 1, from a running
  service with an active subscription, \<open>retryCount = 0\<close> and nothing in flight, and
  with poll cycles that do not overlap (every pull settles before the next tick): the
  first \<open>maxRetries - 1\<close> failing poll cycles each call \<open>pullMessages\<close> only and leave
  the subscription active with the failures counted; the failing cycle that makes the
  count reach \<open>maxRetries\<close> also calls \<open>createPullPointSubscription\<close>. When that call
  succeeds the subscription is active with \<open>retryCount = 0\<close>; when it fails the
  subscription is inactive. While the subscription is inactive every tick of the timer
  makes no gateway call and changes nothing, whatever is in flight; and when nothing is
  in flight, no step other than a tick can happen, so nothing changes until
  \<open>createPullPointSubscription\<close> is called anew and succeeds, as a restart of the
  service makes. The calls that are in flight settle whether the subscription is active
  or not. A pull that is rejected counts one failure, calls
  \<open>createPullPointSubscription\<close> exactly when the count reaches \<open>maxRetries\<close>, and
  makes the subscription inactive when the count goes beyond. A pull that resolves, with
  no listener throwing, counts its events and resets \<open>retryCount\<close>. A
  \<open>createPullPointSubscription\<close> that succeeds makes the subscription active with
  \<open>retryCount = 0\<close>, and one that fails makes it inactive.
\<close>

theorem recreate_after_maxRetries:
  assumes "retryOnError p" and "1 \<le> maxRetries p"
    and "isRunning s" and "subscriptionActive s" and "retryCount s = 0"
  shows "runLoop (Some p) rt (concat (replicate (nat (maxRetries p) - 1) [TimerTick, PullSettles Rejects]))
           (idleLoop s) =
           Some (idleLoop (s\<lparr>retryCount := maxRetries p - 1\<rparr>),
                 concat (replicate (nat (maxRetries p) - 1) [[PullMessages], []]))
    \<and> runLoop (Some p) rt [TimerTick, PullSettles Rejects] (idleLoop (s\<lparr>retryCount := maxRetries p - 1\<rparr>)) =
           Some (\<lparr>polls = \<lparr>service = s\<lparr>retryCount := maxRetries p\<rparr>, inFlight = 1\<rparr>, recreating = 1\<rparr>,
                 [[PullMessages], [CreatePullPointSubscription]])
    \<and> loopStep (Some p) rt (CreateSettles (Resolves ()))
           \<lparr>polls = \<lparr>service = s\<lparr>retryCount := maxRetries p\<rparr>, inFlight = 1\<rparr>, recreating = 1\<rparr> =
           Some (idleLoop (s\<lparr>retryCount := 0, subscriptionActive := True\<rparr>), [])
    \<and> loopStep (Some p) rt (CreateSettles Rejects)
           \<lparr>polls = \<lparr>service = s\<lparr>retryCount := maxRetries p\<rparr>, inFlight = 1\<rparr>, recreating = 1\<rparr> =
           Some (idleLoop (s\<lparr>retryCount := maxRetries p, subscriptionActive := False\<rparr>), [])
    \<and> (\<not> subscriptionActive s' \<longrightarrow>
          loopStep (Some p) rt TimerTick \<lparr>polls = \<lparr>service = s', inFlight = n\<rparr>, recreating = r\<rparr> =
            Some (\<lparr>polls = \<lparr>service = s', inFlight = n\<rparr>, recreating = r\<rparr>, []))
    \<and> (\<not> subscriptionActive s' \<longrightarrow>
          runLoop (Some p) rt evs (idleLoop s') =
            (if list_all (\<lambda>ev. ev = TimerTick) evs
             then Some (idleLoop s', replicate (length evs) []) else None))
    \<and> createPullPointSubscription (Some p) (Resolves ()) s' =
          (Inr (), s'\<lparr>subscriptionActive := True, retryCount := 0\<rparr>)
    \<and> (r < n \<and> isRunning s' \<longrightarrow>
          loopStep (Some p) rt (PullSettles Rejects)
            \<lparr>polls = \<lparr>service = s', inFlight = n\<rparr>, recreating = r\<rparr> =
            (if retryCount s' + 1 < maxRetries p
             then Some (\<lparr>polls = \<lparr>service = s'\<lparr>retryCount := retryCount s' + 1\<rparr>, inFlight = n - 1\<rparr>,
                         recreating = r\<rparr>, [])
             else if retryCount s' + 1 = maxRetries p
             then Some (\<lparr>polls = \<lparr>service = s'\<lparr>retryCount := retryCount s' + 1\<rparr>, inFlight = n\<rparr>,
                         recreating = r + 1\<rparr>, [CreatePullPointSubscription])
             else Some (\<lparr>polls = \<lparr>service = s'\<lparr>retryCount := retryCount s' + 1,
                                                  subscriptionActive := False\<rparr>,
                                  inFlight = n - 1\<rparr>,
                         recreating = r\<rparr>, [])))
    \<and> (r < n \<and> (\<forall>e. \<not> listenerThrows rt e) \<longrightarrow>
          loopStep (Some p) rt (PullSettles (Resolves topics))
            \<lparr>polls = \<lparr>service = s', inFlight = n\<rparr>, recreating = r\<rparr> =
            Some (\<lparr>polls = \<lparr>service = s'\<lparr>eventCounter := eventCounter s' + int (length topics),
                                             retryCount := 0\<rparr>,
                             inFlight = n - 1\<rparr>,
                    recreating = r\<rparr>, []))
    \<and> (0 < r \<longrightarrow>
          loopStep (Some p) rt (CreateSettles (Resolves ()))
            \<lparr>polls = \<lparr>service = s', inFlight = n\<rparr>, recreating = r\<rparr> =
            Some (\<lparr>polls = \<lparr>service = s'\<lparr>subscriptionActive := True, retryCount := 0\<rparr>,
                             inFlight = n - 1\<rparr>,
                    recreating = r - 1\<rparr>, []) \<and>
          loopStep (Some p) rt (CreateSettles Rejects)
            \<lparr>polls = \<lparr>service = s', inFlight = n\<rparr>, recreating = r\<rparr> =
            Some (\<lparr>polls = \<lparr>service = s'\<lparr>subscriptionActive := False\<rparr>, inFlight = n - 1\<rparr>,
                    recreating = r - 1\<rparr>, []))"
proof -
  let ?k = "nat (maxRetries p) - 1"
  let ?s1 = "s\<lparr>retryCount := maxRetries p - 1\<rparr>"
  let ?E = "\<lparr>polls = \<lparr>service = s\<lparr>retryCount := maxRetries p\<rparr>, inFlight = 1\<rparr>, recreating = 1\<rparr>"
  let ?L = "\<lparr>polls = \<lparr>service = s', inFlight = n\<rparr>, recreating = r\<rparr>"
  from assms have k: "int ?k = maxRetries p - 1" by simp
  with assms have lt: "retryCount s + int ?k < maxRetries p" by simp
  have "runLoop (Some p) rt (concat (replicate ?k [TimerTick, PullSettles Rejects])) (idleLoop s) =
     Some (idleLoop (s\<lparr>retryCount := retryCount s + int ?k\<rparr>), concat (replicate ?k [[PullMessages], []]))"
    using assms(1,3,4) lt by (rule failing_cycles)
  with assms(5) k have cyc: "runLoop (Some p) rt (concat (replicate ?k [TimerTick, PullSettles Rejects])) (idleLoop s) =
     Some (idleLoop ?s1, concat (replicate ?k [[PullMessages], []]))" by simp
  from assms have pre: "isRunning ?s1" "subscriptionActive ?s1" "retryCount ?s1 + 1 = maxRetries p"
    by simp_all
  have last: "runLoop (Some p) rt [TimerTick, PullSettles Rejects] (idleLoop ?s1) =
      Some (?E, [[PullMessages], [CreatePullPointSubscription]])"
    using failing_cycle_at_max [OF assms(1) pre, of rt] by simp
  have ok: "loopStep (Some p) rt (CreateSettles (Resolves ())) ?E =
      Some (idleLoop (s\<lparr>retryCount := 0, subscriptionActive := True\<rparr>), [])"
    by (simp add: loopStep_def recreateSettled_def createPullPointSubscription_def idleLoop_def)
  have bad: "loopStep (Some p) rt (CreateSettles Rejects) ?E =
      Some (idleLoop (s\<lparr>retryCount := maxRetries p, subscriptionActive := False\<rparr>), [])"
    using assms(1)
    by (simp add: loopStep_def recreateSettled_def createPullPointSubscription_def idleLoop_def Let_def)
  have tick: "\<not> subscriptionActive s' \<longrightarrow> loopStep (Some p) rt TimerTick ?L = Some (?L, [])"
    by (simp add: loopStep_inactive)
  have off: "\<not> subscriptionActive s' \<longrightarrow>
          runLoop (Some p) rt evs (idleLoop s') =
            (if list_all (\<lambda>ev. ev = TimerTick) evs
             then Some (idleLoop s', replicate (length evs) []) else None)"
    by (simp add: idle_inactive)
  have again: "createPullPointSubscription (Some p) (Resolves ()) s' =
          (Inr (), s'\<lparr>subscriptionActive := True, retryCount := 0\<rparr>)"
    by (simp add: createPullPointSubscription_def)
  have rej: "r < n \<and> isRunning s' \<longrightarrow>
          loopStep (Some p) rt (PullSettles Rejects) ?L =
            (if retryCount s' + 1 < maxRetries p
             then Some (\<lparr>polls = \<lparr>service = s'\<lparr>retryCount := retryCount s' + 1\<rparr>, inFlight = n - 1\<rparr>,
                         recreating = r\<rparr>, [])
             else if retryCount s' + 1 = maxRetries p
             then Some (\<lparr>polls = \<lparr>service = s'\<lparr>retryCount := retryCount s' + 1\<rparr>, inFlight = n\<rparr>,
                         recreating = r + 1\<rparr>, [CreatePullPointSubscription])
             else Some (\<lparr>polls = \<lparr>service = s'\<lparr>retryCount := retryCount s' + 1,
                                                  subscriptionActive := False\<rparr>,
                                  inFlight = n - 1\<rparr>,
                         recreating = r\<rparr>, []))"
    using assms(1) by (simp add: loopStep_def pullSettled_rejected)
  have res: "r < n \<and> (\<forall>e. \<not> listenerThrows rt e) \<longrightarrow>
          loopStep (Some p) rt (PullSettles (Resolves topics)) ?L =
            Some (\<lparr>polls = \<lparr>service = s'\<lparr>eventCounter := eventCounter s' + int (length topics),
                                             retryCount := 0\<rparr>,
                             inFlight = n - 1\<rparr>,
                    recreating = r\<rparr>, [])"
    by (simp add: loopStep_def pullSettled_resolved)
  have cre: "0 < r \<longrightarrow>
          loopStep (Some p) rt (CreateSettles (Resolves ())) ?L =
            Some (\<lparr>polls = \<lparr>service = s'\<lparr>subscriptionActive := True, retryCount := 0\<rparr>,
                             inFlight = n - 1\<rparr>,
                    recreating = r - 1\<rparr>, []) \<and>
          loopStep (Some p) rt (CreateSettles Rejects) ?L =
            Some (\<lparr>polls = \<lparr>service = s'\<lparr>subscriptionActive := False\<rparr>, inFlight = n - 1\<rparr>,
                    recreating = r - 1\<rparr>, [])"
    using assms(1)
    by (simp add: loopStep_def recreateSettled_def createPullPointSubscription_def Let_def)
  from cyc last ok bad tick off again rej res cre show ?thesis by blast
qed

theorem recreate_after_maxRetries_witness:
  "retryOnError defaultPolling \<and> 1 \<le> maxRetries defaultPolling \<and> isRunning activeService
   \<and> subscriptionActive activeService \<and> retryCount activeService = 0
   \<and> runLoop (Some defaultPolling) sampleRuntime
        [TimerTick, PullSettles Rejects, TimerTick, PullSettles Rejects] (idleLoop activeService) =
        Some (idleLoop (activeService\<lparr>retryCount := 2\<rparr>), [[PullMessages], [], [PullMessages], []])
   \<and> runLoop (Some defaultPolling) sampleRuntime [TimerTick, PullSettles Rejects]
        (idleLoop (activeService\<lparr>retryCount := 2\<rparr>)) =
        Some (\<lparr>polls = \<lparr>service = activeService\<lparr>retryCount := 3\<rparr>, inFlight = 1\<rparr>, recreating = 1\<rparr>,
              [[PullMessages], [CreatePullPointSubscription]])
   \<and> loopStep (Some defaultPolling) sampleRuntime (CreateSettles (Resolves ()))
        \<lparr>polls = \<lparr>service = activeService\<lparr>retryCount := 3\<rparr>, inFlight = 1\<rparr>, recreating = 1\<rparr> =
        Some (idleLoop activeService, [])
   \<and> loopStep (Some defaultPolling) sampleRuntime (CreateSettles Rejects)
        \<lparr>polls = \<lparr>service = activeService\<lparr>retryCount := 3\<rparr>, inFlight = 1\<rparr>, recreating = 1\<rparr> =
        Some (idleLoop disabledService, [])
   \<and> \<not> subscriptionActive disabledService
   \<and> loopStep (Some defaultPolling) sampleRuntime TimerTick disabledWithPending =
        Some (disabledWithPending, [])
   \<and> runLoop (Some defaultPolling) sampleRuntime [TimerTick, TimerTick] (idleLoop disabledService) =
        Some (idleLoop disabledService, [[], []])
   \<and> runLoop (Some defaultPolling) sampleRuntime [TimerTick, PullSettles (Resolves [])]
        (idleLoop disabledService) = None
   \<and> createPullPointSubscription (Some defaultPolling) (Resolves ()) disabledService =
        (Inr (), activeService)
   \<and> (0::nat) < 4 \<and> isRunning disabledService
   \<and> loopStep (Some defaultPolling) sampleRuntime (PullSettles Rejects) disabledWithPending =
        Some (\<lparr>polls = \<lparr>service = disabledService\<lparr>retryCount := 4\<rparr>, inFlight = 3\<rparr>, recreating = 0\<rparr>, [])
   \<and> (\<forall>e. \<not> listenerThrows sampleRuntime e)
   \<and> loopStep (Some defaultPolling) sampleRuntime (PullSettles (Resolves [])) disabledWithPending =
        Some (\<lparr>polls = \<lparr>service = disabledService\<lparr>retryCount := 0\<rparr>, inFlight = 3\<rparr>, recreating = 0\<rparr>, [])
   \<and> (0::nat) < 1
   \<and> loopStep (Some defaultPolling) sampleRuntime (CreateSettles (Resolves ()))
        \<lparr>polls = \<lparr>service = disabledService, inFlight = 2\<rparr>, recreating = 1\<rparr> =
        Some (\<lparr>polls = \<lparr>service = activeService, inFlight = 1\<rparr>, recreating = 0\<rparr>, [])"
proof -
  have q: "\<forall>e. \<not> listenerThrows sampleRuntime e" by (simp add: sampleRuntime_def)
  from recreate_after_maxRetries [where p = defaultPolling and s = activeService and rt = sampleRuntime
      and s' = disabledService and n = 4 and r = 0 and evs = "[TimerTick, TimerTick]"
      and topics = "[]"]
    recreate_after_maxRetries [where p = defaultPolling and s = activeService and rt = sampleRuntime
      and s' = disabledService and n = 2 and r = 1 and evs = "[TimerTick, PullSettles (Resolves [])]"]
    q
  show ?thesis
    by (simp add: defaultPolling_def activeService_def disabledService_def disabledWithPending_def
          numeral_2_eq_2)
qed

text \<open>
  Poll cycles that overlap. Seven ticks start seven pulls before any of them settles.
  Three pulls are rejected, the third calls \<open>createPullPointSubscription\<close>, and that call
  fails: the subscription is inactive, with four pulls pending. One of them resolves with
  no event and resets \<open>retryCount\<close>; the other three are rejected, and the third calls
  \<open>createPullPointSubscription\<close> while the subscription is inactive. That call succeeds:
  the subscription is active again, and no restart was made.
\<close>

theorem pending_pulls_recreate:
  "runLoop (Some defaultPolling) sampleRuntime
     [TimerTick, TimerTick, TimerTick, TimerTick, TimerTick, TimerTick, TimerTick,
      PullSettles Rejects, PullSettles Rejects, PullSettles Rejects, CreateSettles Rejects]
     (idleLoop activeService) =
     Some (disabledWithPending,
           [[PullMessages], [PullMessages], [PullMessages], [PullMessages], [PullMessages],
            [PullMessages], [PullMessages], [], [], [CreatePullPointSubscription], []])
   \<and> \<not> subscriptionActive (service (polls disabledWithPending))
   \<and> runLoop (Some defaultPolling) sampleRuntime
       [PullSettles (Resolves []), PullSettles Rejects, PullSettles Rejects, PullSettles Rejects,
        CreateSettles (Resolves ())]
       disabledWithPending =
       Some (idleLoop activeService, [[], [], [], [CreatePullPointSubscription], []])
   \<and> subscriptionActive (service (polls (idleLoop activeService)))"
  by (simp add: loopStep_def timerTick_def pollIssued_def pullSettled_def pollFailed_def
        recreateSettled_def createPullPointSubscription_def idleLoop_def defaultPolling_def
        activeService_def disabledService_def disabledWithPending_def Let_def)

lemma timerTick_repeated:
  "pollIssued polling (service L) \<Longrightarrow> (timerTick polling ^^ n) L = L\<lparr>inFlight := inFlight L + n\<rparr>"
  by (induction n) (simp_all add: timerTick_def)

text \<open>
  Claim C3. A tick of the poll timer calls \<open>pollForEvents\<close>, and that call issues
  \<open>pullMessages\<close> exactly when the service is running, polling is configured and the
  subscription is active. The number of invocations still in flight plays no part: such a
  tick adds one to it, and \<open>n\<close> ticks with no completion between them add \<open>n\<close>. A tick
  does nothing only when one of the three conditions fails.
\<close>

theorem tick_always_polls:
  "(pollIssued polling s \<longleftrightarrow> isRunning s \<and> polling \<noteq> None \<and> subscriptionActive s)
   \<and> (pollIssued polling (service L) \<longrightarrow>
        timerTick polling L = L\<lparr>inFlight := inFlight L + 1\<rparr> \<and>
        (timerTick polling ^^ n) L = L\<lparr>inFlight := inFlight L + n\<rparr>)
   \<and> (\<not> pollIssued polling (service L) \<longrightarrow> timerTick polling L = L)"
  using timerTick_repeated [of polling L n]
  by (auto simp add: timerTick_def pollIssued_def)

theorem tick_always_polls_witness:
  "pollIssued (Some defaultPolling) activeService
   \<and> timerTick (Some defaultPolling) \<lparr>service = activeService, inFlight = 1\<rparr>
       = \<lparr>service = activeService, inFlight = 2\<rparr>
   \<and> (timerTick (Some defaultPolling) ^^ 3) \<lparr>service = activeService, inFlight = 1\<rparr>
       = \<lparr>service = activeService, inFlight = 4\<rparr>
   \<and> \<not> pollIssued (Some defaultPolling) (activeService\<lparr>subscriptionActive := False\<rparr>)
   \<and> timerTick (Some defaultPolling) \<lparr>service = activeService\<lparr>subscriptionActive := False\<rparr>, inFlight = 1\<rparr>
       = \<lparr>service = activeService\<lparr>subscriptionActive := False\<rparr>, inFlight = 1\<rparr>"
  using tick_always_polls [where polling = "Some defaultPolling" and s = activeService
      and L = "\<lparr>service = activeService, inFlight = 1\<rparr>" and n = 3]
    tick_always_polls [where polling = "Some defaultPolling" and s = "activeService\<lparr>subscriptionActive := False\<rparr>"
      and L = "\<lparr>service = activeService\<lparr>subscriptionActive := False\<rparr>, inFlight = 1\<rparr>"]
  by (simp add: activeService_def)

text \<open>
  A tick that arrives while one poll cycle is in flight is not skipped: afterwards two
  are in flight.
\<close>

theorem ticks_overlap:
  "inFlight (timerTick (Some defaultPolling) \<lparr>service = activeService, inFlight = 1\<rparr>) = 2
   \<and> timerTick (Some defaultPolling) \<lparr>service = activeService, inFlight = 1\<rparr>
       \<noteq> \<lparr>service = activeService, inFlight = 1\<rparr>"
  by (simp add: timerTick_def pollIssued_def activeService_def)

section \<open>Properties of the alert delivery\<close>

lemma webhookCalls_simps:
  "webhookCalls [] = 0"
  "webhookCalls (Fetch k # effs) = Suc (webhookCalls effs)"
  "webhookCalls (Delay d # effs) = webhookCalls effs"
  "webhookCalls (effs @ effs') = webhookCalls effs + webhookCalls effs'"
  by (simp_all add: webhookCalls_def)

lemma sendWebhookFrom_calls_le:
  "webhookCalls (snd (sendWebhookFrom cfg fetch attempt)) \<le> nat (retryAttempts cfg + 1 - attempt)"
proof (induction cfg fetch attempt rule: sendWebhookFrom.induct)
  case (1 cfg fetch attempt)
  show ?case
  proof (cases "attempt \<le> retryAttempts cfg \<and>
      \<not> (timeoutAccepted (timeout cfg) \<and> attemptSucceeds (fetch attempt))")
    case True
    with 1 have "webhookCalls (snd (sendWebhookFrom cfg fetch (attempt + 1))) \<le> nat (retryAttempts cfg + 1 - (attempt + 1))"
      by simp
    with True show ?thesis
      by (subst sendWebhookFrom.simps) (auto simp add: webhookCalls_simps split: prod.splits)
  next
    case False
    then show ?thesis
      by (subst sendWebhookFrom.simps) (auto simp add: webhookCalls_simps)
  qed
qed

lemma sendWebhookFrom_all_fail:
  "\<not> timeoutAccepted (timeout cfg) \<or>
     (\<forall>j. attempt \<le> j \<and> j \<le> retryAttempts cfg \<longrightarrow> \<not> attemptSucceeds (fetch j)) \<Longrightarrow>
   fst (sendWebhookFrom cfg fetch attempt) = Inl (DeliveryError (retryAttempts cfg)) \<and>
   webhookCalls (snd (sendWebhookFrom cfg fetch attempt)) =
     (if timeoutAccepted (timeout cfg) then nat (retryAttempts cfg + 1 - attempt) else 0)"
proof (induction cfg fetch attempt rule: sendWebhookFrom.induct)
  case (1 cfg fetch attempt)
  show ?case
  proof (cases "attempt \<le> retryAttempts cfg")
    case True
    with "1.prems" have nf: "\<not> (timeoutAccepted (timeout cfg) \<and> attemptSucceeds (fetch attempt))"
      by auto
    from "1.prems" have "\<not> timeoutAccepted (timeout cfg) \<or>
        (\<forall>j. attempt + 1 \<le> j \<and> j \<le> retryAttempts cfg \<longrightarrow> \<not> attemptSucceeds (fetch j))"
      by auto
    with "1.IH" [OF True nf] have IH: "fst (sendWebhookFrom cfg fetch (attempt + 1)) = Inl (DeliveryError (retryAttempts cfg))"
       "webhookCalls (snd (sendWebhookFrom cfg fetch (attempt + 1))) =
          (if timeoutAccepted (timeout cfg) then nat (retryAttempts cfg + 1 - (attempt + 1)) else 0)"
      by simp_all
    from True have "Suc (nat (retryAttempts cfg + 1 - (attempt + 1))) = nat (retryAttempts cfg + 1 - attempt)" by simp
    with True nf IH show ?thesis
      by (subst (1 2) sendWebhookFrom.simps) (auto simp add: webhookCalls_simps split: prod.splits)
  next
    case False
    then show ?thesis
      by (subst (1 2) sendWebhookFrom.simps) (simp add: webhookCalls_simps)
  qed
qed

lemma sendWebhookFrom_first_success:
  "timeoutAccepted (timeout cfg) \<Longrightarrow>
   attempt \<le> k \<Longrightarrow> k \<le> retryAttempts cfg \<Longrightarrow> attemptSucceeds (fetch k) \<Longrightarrow>
   \<forall>j. attempt \<le> j \<and> j < k \<longrightarrow> \<not> attemptSucceeds (fetch j) \<Longrightarrow>
   fst (sendWebhookFrom cfg fetch attempt) = Inr () \<and>
   webhookCalls (snd (sendWebhookFrom cfg fetch attempt)) = nat (k + 1 - attempt)"
proof (induction cfg fetch attempt rule: sendWebhookFrom.induct)
  case (1 cfg fetch attempt)
  note ta = "1.prems"(1)
  from "1.prems" have le: "attempt \<le> retryAttempts cfg" by simp
  show ?case
  proof (cases "attemptSucceeds (fetch attempt)")
    case True
    have "k = attempt"
    proof (rule ccontr)
      assume "k \<noteq> attempt"
      with "1.prems"(2) have "attempt \<le> attempt \<and> attempt < k" by simp
      with "1.prems"(5) True show False by blast
    qed
    with True le ta show ?thesis
      by (subst (1 2) sendWebhookFrom.simps) (simp add: webhookCalls_simps)
  next
    case False
    then have nf: "\<not> (timeoutAccepted (timeout cfg) \<and> attemptSucceeds (fetch attempt))" by simp
    from False "1.prems" have lt: "attempt + 1 \<le> k" by (cases "attempt = k") auto
    from "1.prems" have "\<forall>j. attempt + 1 \<le> j \<and> j < k \<longrightarrow> \<not> attemptSucceeds (fetch j)" by simp
    with "1.IH" [OF le nf ta lt "1.prems"(3,4)] have IH: "fst (sendWebhookFrom cfg fetch (attempt + 1)) = Inr ()"
       "webhookCalls (snd (sendWebhookFrom cfg fetch (attempt + 1))) = nat (k + 1 - (attempt + 1))"
      by simp_all
    from lt have "Suc (nat (k + 1 - (attempt + 1))) = nat (k + 1 - attempt)" by simp
    with le False ta IH show ?thesis
      by (subst (1 2) sendWebhookFrom.simps) (auto simp add: webhookCalls_simps split: prod.splits)
  qed
qed

lemma deliverAlert_throttleMap:
  "throttleMap (fst (deliverAlert cfg fetch e s)) = throttleMap s"
  by (simp add: deliverAlert_def split: sum.splits prod.splits)

lemma sendAlert_failed:
  "fst (admitAlert cfg now e s) \<Longrightarrow> ev_timestamp e \<noteq> None \<Longrightarrow> fst (sendWebhook cfg fetch) = Inl err \<Longrightarrow>
   sendAlert cfg now fetch e s =
     (snd (admitAlert cfg now e s), snd (sendWebhook cfg fetch) @ [AlertFailed (ev_id e)])"
  by (cases "admitAlert cfg now e s"; cases "sendWebhook cfg fetch")
     (auto simp add: sendAlert_def deliverAlert_def createAlertPayload_def split: option.splits)

lemma deliverAlert_admission:
  "fst (admitAlert cfg now' e' (fst (deliverAlert cfg fetch e s))) = fst (admitAlert cfg now' e' s)"
  "throttleMap (snd (admitAlert cfg now' e' (fst (deliverAlert cfg fetch e s)))) =
     throttleMap (snd (admitAlert cfg now' e' s))"
  by (simp_all add: admitAlert_def deliverAlert_def split: sum.splits prod.splits)

lemma sampleAlertConfig_fields:
  "timeoutAccepted (timeout sampleAlertConfig)" "retryAttempts sampleAlertConfig = 3"
  "webhookUrl sampleAlertConfig \<noteq> []" "throttling sampleAlertConfig = scenarioConfig"
  "\<not> timeoutAccepted (timeout badTimeoutConfig)" "retryAttempts badTimeoutConfig = 3"
  by (simp_all add: sampleAlertConfig_def badTimeoutConfig_def timeoutAccepted_def)

lemma failTwice_facts:
  "\<not> attemptSucceeds (failTwice 1)" "\<not> attemptSucceeds (failTwice 2)" "attemptSucceeds (failTwice 3)"
  "\<not> attemptSucceeds (failAlways j)"
  by (simp_all add: failTwice_def failAlways_def attemptSucceeds_def responseOk_def)

lemma sendWebhook_failTwice:
  "sendWebhook sampleAlertConfig failTwice = (Inr (), [Fetch 1, Delay 1000, Fetch 2, Delay 1000, Fetch 3])"
  by (simp add: sendWebhook_def sendWebhookFrom.simps sampleAlertConfig_def failTwice_def
        attemptSucceeds_def responseOk_def timeoutAccepted_def)

lemma sendWebhook_failAlways:
  "sendWebhook sampleAlertConfig failAlways = (Inl (DeliveryError 3), [Fetch 1, Delay 1000, Fetch 2, Delay 1000, Fetch 3])"
  by (simp add: sendWebhook_def sendWebhookFrom.simps sampleAlertConfig_def failAlways_def
        attemptSucceeds_def responseOk_def timeoutAccepted_def)

lemma sendWebhook_badTimeout:
  "sendWebhook badTimeoutConfig failTwice = (Inl (DeliveryError 3), [Delay 1000, Delay 1000])"
  by (simp add: sendWebhook_def sendWebhookFrom.simps sampleAlertConfig_def badTimeoutConfig_def
        timeoutAccepted_def)

text \<open>
  Claim C8. \<open>sendWebhook\<close> makes at most \<open>retryAttempts\<close> calls of the webhook. A
  rejected \<open>fetch\<close> (a network error or the timeout) and a response with a status
  outside 200 to 299 are failed attempts, and so is an attempt in which
  \<open>AbortSignal.timeout\<close> refuses the configured timeout, which makes no call. With a
  timeout that is accepted, when attempt \<open>k\<close> is the first that succeeds, \<open>sendWebhook\<close>
  returns without an error after exactly \<open>k\<close> calls. When every attempt fails, it throws
  the delivery error, after \<open>retryAttempts\<close> calls when the timeout is accepted and after
  none when it is not; \<open>sendAlert\<close> catches the error, emits \<open>alertFailed\<close> for the
  event and returns with the state that the admission left. The events that follow are
  handled from that state as if the delivery had not been made, and the delivery of an
  event, finished or not, takes no part in the admission of another event.
\<close>

theorem webhook_retries:
  "webhookCalls (snd (sendWebhook cfg fetch)) \<le> nat (retryAttempts cfg)
   \<and> \<not> attemptSucceeds Rejects
   \<and> (attemptSucceeds (Resolves status) \<longleftrightarrow> 200 \<le> status \<and> status \<le> 299)
   \<and> (timeoutAccepted (timeout cfg) \<and>
        1 \<le> k \<and> k \<le> retryAttempts cfg \<and> attemptSucceeds (fetch k) \<and>
        (\<forall>j. 1 \<le> j \<and> j < k \<longrightarrow> \<not> attemptSucceeds (fetch j)) \<longrightarrow>
        fst (sendWebhook cfg fetch) = Inr () \<and> webhookCalls (snd (sendWebhook cfg fetch)) = nat k)
   \<and> (\<not> timeoutAccepted (timeout cfg) \<or>
        (\<forall>j. 1 \<le> j \<and> j \<le> retryAttempts cfg \<longrightarrow> \<not> attemptSucceeds (fetch j)) \<longrightarrow>
        fst (sendWebhook cfg fetch) = Inl (DeliveryError (retryAttempts cfg)) \<and>
        webhookCalls (snd (sendWebhook cfg fetch)) =
          (if timeoutAccepted (timeout cfg) then nat (retryAttempts cfg) else 0) \<and>
        (fst (admitAlert cfg now e s) \<and> ev_timestamp e \<noteq> None \<longrightarrow>
           sendAlert cfg now fetch e s =
             (snd (admitAlert cfg now e s), snd (sendWebhook cfg fetch) @ [AlertFailed (ev_id e)]) \<and>
           handleEvent cfg now' fetch' e' (fst (handleEvent cfg now fetch e s)) =
             handleEvent cfg now' fetch' e' (snd (admitAlert cfg now e s))))
   \<and> fst (admitAlert cfg now' e' (fst (deliverAlert cfg fetch e s))) = fst (admitAlert cfg now' e' s)
   \<and> throttleMap (snd (admitAlert cfg now' e' (fst (deliverAlert cfg fetch e s)))) =
        throttleMap (snd (admitAlert cfg now' e' s))"
proof (intro conjI impI)
  show "webhookCalls (snd (sendWebhook cfg fetch)) \<le> nat (retryAttempts cfg)"
    using sendWebhookFrom_calls_le [of cfg fetch 1] by (simp add: sendWebhook_def)
  show "\<not> attemptSucceeds Rejects" by (simp add: attemptSucceeds_def)
  show "attemptSucceeds (Resolves status) \<longleftrightarrow> 200 \<le> status \<and> status \<le> 299"
    by (simp add: attemptSucceeds_def responseOk_def)
  show "fst (admitAlert cfg now' e' (fst (deliverAlert cfg fetch e s))) = fst (admitAlert cfg now' e' s)"
    by (rule deliverAlert_admission)
  show "throttleMap (snd (admitAlert cfg now' e' (fst (deliverAlert cfg fetch e s)))) =
        throttleMap (snd (admitAlert cfg now' e' s))"
    by (rule deliverAlert_admission)
next
  assume a: "timeoutAccepted (timeout cfg) \<and>
        1 \<le> k \<and> k \<le> retryAttempts cfg \<and> attemptSucceeds (fetch k) \<and>
        (\<forall>j. 1 \<le> j \<and> j < k \<longrightarrow> \<not> attemptSucceeds (fetch j))"
  then have "fst (sendWebhookFrom cfg fetch 1) = Inr () \<and>
     webhookCalls (snd (sendWebhookFrom cfg fetch 1)) = nat (k + 1 - 1)"
    by (intro sendWebhookFrom_first_success) simp_all
  then show "fst (sendWebhook cfg fetch) = Inr ()"
    and "webhookCalls (snd (sendWebhook cfg fetch)) = nat k"
    by (simp_all add: sendWebhook_def)
next
  assume a: "\<not> timeoutAccepted (timeout cfg) \<or>
        (\<forall>j. 1 \<le> j \<and> j \<le> retryAttempts cfg \<longrightarrow> \<not> attemptSucceeds (fetch j))"
  then have f: "fst (sendWebhookFrom cfg fetch 1) = Inl (DeliveryError (retryAttempts cfg)) \<and>
     webhookCalls (snd (sendWebhookFrom cfg fetch 1)) =
       (if timeoutAccepted (timeout cfg) then nat (retryAttempts cfg + 1 - 1) else 0)"
    by (rule sendWebhookFrom_all_fail)
  then show "fst (sendWebhook cfg fetch) = Inl (DeliveryError (retryAttempts cfg))"
    and "webhookCalls (snd (sendWebhook cfg fetch)) =
          (if timeoutAccepted (timeout cfg) then nat (retryAttempts cfg) else 0)"
    by (simp_all add: sendWebhook_def)
  assume b: "fst (admitAlert cfg now e s) \<and> ev_timestamp e \<noteq> None"
  from f have "fst (sendWebhook cfg fetch) = Inl (DeliveryError (retryAttempts cfg))"
    by (simp add: sendWebhook_def)
  with b have sa: "sendAlert cfg now fetch e s =
             (snd (admitAlert cfg now e s), snd (sendWebhook cfg fetch) @ [AlertFailed (ev_id e)])"
    by (intro sendAlert_failed) simp_all
  then show "sendAlert cfg now fetch e s =
             (snd (admitAlert cfg now e s), snd (sendWebhook cfg fetch) @ [AlertFailed (ev_id e)])" .
  from b have "isEnabled s" by (auto simp add: admitAlert_def split: if_splits)
  with sa show "handleEvent cfg now' fetch' e' (fst (handleEvent cfg now fetch e s)) =
             handleEvent cfg now' fetch' e' (snd (admitAlert cfg now e s))"
    by (simp add: handleEvent_def)
qed

theorem webhook_retries_witness:
  "timeoutAccepted (timeout sampleAlertConfig)
   \<and> (1::int) \<le> 3 \<and> 3 \<le> retryAttempts sampleAlertConfig \<and> attemptSucceeds (failTwice 3)
   \<and> \<not> attemptSucceeds (failTwice 1) \<and> \<not> attemptSucceeds (failTwice 2)
   \<and> sendWebhook sampleAlertConfig failTwice =
        (Inr (), [Fetch 1, Delay 1000, Fetch 2, Delay 1000, Fetch 3])
   \<and> webhookCalls (snd (sendWebhook sampleAlertConfig failTwice)) = 3
   \<and> (\<forall>j. \<not> attemptSucceeds (failAlways j))
   \<and> sendWebhook sampleAlertConfig failAlways =
        (Inl (DeliveryError 3), [Fetch 1, Delay 1000, Fetch 2, Delay 1000, Fetch 3])
   \<and> webhookCalls (snd (sendWebhook sampleAlertConfig failAlways)) = 3
   \<and> \<not> timeoutAccepted (timeout badTimeoutConfig)
   \<and> sendWebhook badTimeoutConfig failTwice = (Inl (DeliveryError 3), [Delay 1000, Delay 1000])
   \<and> webhookCalls (snd (sendWebhook badTimeoutConfig failTwice)) = 0
   \<and> fst (admitAlert sampleAlertConfig 1700000000000 (motionEvent 0) freshAlertService)
   \<and> ev_timestamp (motionEvent 0) \<noteq> None
   \<and> snd (handleEvent sampleAlertConfig 1700000000000 failAlways (motionEvent 0) freshAlertService) =
        [Fetch 1, Delay 1000, Fetch 2, Delay 1000, Fetch 3, AlertFailed (ev_id (motionEvent 0))]
   \<and> snd (handleEvent sampleAlertConfig 1700000000100 failTwice (tamperEvent 1)
             (fst (handleEvent sampleAlertConfig 1700000000000 failAlways (motionEvent 0)
                     freshAlertService))) =
        [Fetch 1, Delay 1000, Fetch 2, Delay 1000, Fetch 3, AlertSent (ev_id (tamperEvent 1))]"
proof -
  have adm: "fst (admitAlert sampleAlertConfig 1700000000000 (motionEvent 0) freshAlertService)"
    by (simp add: admitAlert_def sampleAlertConfig_def freshAlertService_def scenarioConfig_def
          shouldSendAlert_def throttleRecord_def gateRecord_def resetWindow_def newRecord_def Let_def)
  have ts: "ev_timestamp (motionEvent 0) \<noteq> None" "ev_timestamp (tamperEvent 1) \<noteq> None"
    by (simp_all add: motionEvent_def tamperEvent_def processPolledEvent_def Let_def)
  have ty: "ev_type (motionEvent 0) = ''motionalarm''" "ev_type (tamperEvent 1) = ''tamper''"
    by (simp_all add: motionEvent_def tamperEvent_def processPolledEvent_def Let_def) code_simp+
  note fields = sampleAlertConfig_fields(3,4)
  have en: "isEnabled freshAlertService" by (simp add: freshAlertService_def)
  have second: "snd (handleEvent sampleAlertConfig 1700000000100 failTwice (tamperEvent 1)
      (snd (admitAlert sampleAlertConfig 1700000000000 (motionEvent 0) freshAlertService))) =
      [Fetch 1, Delay 1000, Fetch 2, Delay 1000, Fetch 3, AlertSent (ev_id (tamperEvent 1))]"
    using ts ty fields
    by (auto simp add: handleEvent_def sendAlert_def admitAlert_def deliverAlert_def createAlertPayload_def
          sendWebhook_failTwice freshAlertService_def scenarioConfig_def
          shouldSendAlert_def throttleRecord_def gateRecord_def resetWindow_def newRecord_def Let_def
          split: option.splits)
  note cfg = sampleAlertConfig_fields(2)
  have hypA: "timeoutAccepted (timeout sampleAlertConfig) \<and>
      1 \<le> (3::int) \<and> 3 \<le> retryAttempts sampleAlertConfig \<and> attemptSucceeds (failTwice 3) \<and>
      (\<forall>j. 1 \<le> j \<and> j < 3 \<longrightarrow> \<not> attemptSucceeds (failTwice j))"
    by (auto simp add: cfg sampleAlertConfig_fields(1) failTwice_def attemptSucceeds_def responseOk_def)
  from webhook_retries [where cfg = sampleAlertConfig and fetch = failTwice and k = 3] hypA
  have resA: "webhookCalls (snd (sendWebhook sampleAlertConfig failTwice)) = nat 3"
    by blast
  have hypB: "\<not> timeoutAccepted (timeout sampleAlertConfig) \<or>
      (\<forall>j. 1 \<le> j \<and> j \<le> retryAttempts sampleAlertConfig \<longrightarrow> \<not> attemptSucceeds (failAlways j))"
    by (simp add: failTwice_facts)
  have hypB2: "fst (admitAlert sampleAlertConfig 1700000000000 (motionEvent 0) freshAlertService) \<and>
      ev_timestamp (motionEvent 0) \<noteq> None"
    using adm ts by simp
  note B = webhook_retries [where cfg = sampleAlertConfig and fetch = failAlways and now = 1700000000000
      and e = "motionEvent 0" and s = freshAlertService and now' = 1700000000100
      and fetch' = failTwice and e' = "tamperEvent 1"]
  from B hypB hypB2
  have resB1: "sendAlert sampleAlertConfig 1700000000000 failAlways (motionEvent 0) freshAlertService =
      (snd (admitAlert sampleAlertConfig 1700000000000 (motionEvent 0) freshAlertService),
       snd (sendWebhook sampleAlertConfig failAlways) @ [AlertFailed (ev_id (motionEvent 0))])"
    by blast
  from B hypB hypB2
  have resB2: "handleEvent sampleAlertConfig 1700000000100 failTwice (tamperEvent 1)
      (fst (handleEvent sampleAlertConfig 1700000000000 failAlways (motionEvent 0) freshAlertService)) =
      handleEvent sampleAlertConfig 1700000000100 failTwice (tamperEvent 1)
        (snd (admitAlert sampleAlertConfig 1700000000000 (motionEvent 0) freshAlertService))"
    by blast
  from B hypB
  have resB3: "webhookCalls (snd (sendWebhook sampleAlertConfig failAlways)) =
      (if timeoutAccepted (timeout sampleAlertConfig) then nat (retryAttempts sampleAlertConfig) else 0)"
    by blast
  have hypC: "\<not> timeoutAccepted (timeout badTimeoutConfig) \<or>
      (\<forall>j. 1 \<le> j \<and> j \<le> retryAttempts badTimeoutConfig \<longrightarrow> \<not> attemptSucceeds (failTwice j))"
    by (simp add: sampleAlertConfig_fields(5))
  from webhook_retries [where cfg = badTimeoutConfig and fetch = failTwice] hypC
  have resC: "webhookCalls (snd (sendWebhook badTimeoutConfig failTwice)) =
      (if timeoutAccepted (timeout badTimeoutConfig) then nat (retryAttempts badTimeoutConfig) else 0)"
    by blast
  have first: "snd (handleEvent sampleAlertConfig 1700000000000 failAlways (motionEvent 0) freshAlertService) =
      [Fetch 1, Delay 1000, Fetch 2, Delay 1000, Fetch 3, AlertFailed (ev_id (motionEvent 0))]"
    using resB1 en by (simp add: handleEvent_def sendWebhook_failAlways)
  have all: "\<forall>j. \<not> attemptSucceeds (failAlways j)" by (simp add: failTwice_facts)
  from resA resB2 resB3 resC first second all show ?thesis
    by (simp add: sampleAlertConfig_fields failTwice_facts sendWebhook_failTwice sendWebhook_failAlways
          sendWebhook_badTimeout adm ts)
qed

text \<open>
  Claim C10. When the throttle admits an event in \<open>sendAlert\<close>, the part of
  \<open>sendAlert\<close> that runs before the delivery has stored the updated record, and the
  state that \<open>sendAlert\<close> leaves holds that same throttle map however the webhook calls
  settle, so also when all of them fail: the count of the window is one higher, the time
  of the last alert is the time of the admission, and a later event of the same type
  within \<open>debounceMs\<close> of a positive admission time is not admitted.
\<close>

theorem admission_is_kept:
  assumes "isEnabled s" and "webhookUrl cfg \<noteq> []" and "throttlingEnabled (throttling cfg)"
    and "fst (shouldSendAlert (throttling cfg) (ev_type e) now (throttleMap s))"
  shows "admitAlert cfg now e s =
           (True, s\<lparr>throttleMap := snd (shouldSendAlert (throttling cfg) (ev_type e) now (throttleMap s))\<rparr>)
    \<and> throttleMap (fst (sendAlert cfg now fetch e s)) =
           snd (shouldSendAlert (throttling cfg) (ev_type e) now (throttleMap s))
    \<and> map_option lastEventTime (throttleMap (fst (sendAlert cfg now fetch e s)) (ev_type e)) = Some now
    \<and> map_option count (throttleMap (fst (sendAlert cfg now fetch e s)) (ev_type e)) =
           Some (count (resetWindow (throttling cfg) now
                   (case throttleMap s (ev_type e) of None \<Rightarrow> newRecord now | Some r \<Rightarrow> r)) + 1)
    \<and> (0 < now \<and> now \<le> now' \<and> now' - now < debounceMs (throttling cfg) \<and> ev_type e' = ev_type e \<longrightarrow>
          \<not> fst (admitAlert cfg now' e' (fst (sendAlert cfg now fetch e s))))"
proof -
  let ?tm' = "snd (shouldSendAlert (throttling cfg) (ev_type e) now (throttleMap s))"
  let ?r = "case throttleMap s (ev_type e) of None \<Rightarrow> newRecord now | Some r \<Rightarrow> r"
  let ?s' = "fst (sendAlert cfg now fetch e s)"
  from assms have adm: "admitAlert cfg now e s = (True, s\<lparr>throttleMap := ?tm'\<rparr>)"
    by (cases "shouldSendAlert (throttling cfg) (ev_type e) now (throttleMap s)")
       (simp add: admitAlert_def)
  then have tm: "throttleMap ?s' = ?tm'"
    by (simp add: sendAlert_def deliverAlert_throttleMap)
  have en: "isEnabled ?s' = isEnabled s"
    using adm by (simp add: sendAlert_def deliverAlert_def split: sum.splits prod.splits)
  have sh: "shouldSendAlert (throttling cfg) (ev_type e) now (throttleMap s) =
      (fst (throttleRecord (throttling cfg) now ?r),
       (throttleMap s)(ev_type e \<mapsto> snd (throttleRecord (throttling cfg) now ?r)))"
    by (simp add: shouldSendAlert_def Let_def split: prod.splits)
  with assms(4) have ok: "fst (throttleRecord (throttling cfg) now ?r)" by simp
  from sh have rec: "?tm' (ev_type e) = Some (snd (throttleRecord (throttling cfg) now ?r))" by simp
  from ok have last: "lastEventTime (snd (throttleRecord (throttling cfg) now ?r)) = now"
    by (rule throttleRecord_admit_last)
  from ok have cnt: "count (snd (throttleRecord (throttling cfg) now ?r)) =
      count (resetWindow (throttling cfg) now ?r) + 1"
    by (auto simp add: throttleRecord_def gateRecord_def Let_def split: if_splits)
  have later: "\<not> fst (admitAlert cfg now' e' ?s')"
    if h: "0 < now \<and> now \<le> now' \<and> now' - now < debounceMs (throttling cfg) \<and> ev_type e' = ev_type e"
  proof -
    from h last have "0 < now" "now \<le> lastEventTime (snd (throttleRecord (throttling cfg) now ?r))"
      "now' - now < debounceMs (throttling cfg)" by simp_all
    then have "\<not> fst (throttleRecord (throttling cfg) now' (snd (throttleRecord (throttling cfg) now ?r)))"
      by (rule throttleRecord_debounced)
    with rec tm h en assms(1-3) show ?thesis
      by (simp add: admitAlert_def shouldSendAlert_Some split: prod.splits)
  qed
  from adm tm rec last cnt later show ?thesis by simp
qed

theorem admission_is_kept_witness:
  "isEnabled freshAlertService \<and> webhookUrl sampleAlertConfig \<noteq> []
   \<and> throttlingEnabled (throttling sampleAlertConfig)
   \<and> fst (shouldSendAlert (throttling sampleAlertConfig) (ev_type (motionEvent 0)) 1700000000000
            (throttleMap freshAlertService))
   \<and> fst (sendWebhook sampleAlertConfig failAlways) = Inl (DeliveryError 3)
   \<and> map_option lastEventTime (throttleMap admittedService ''motionalarm'') = Some 1700000000000
   \<and> map_option count (throttleMap admittedService ''motionalarm'') = Some 1
   \<and> (0::int) < 1700000000000 \<and> (1700000000000::int) \<le> 1700000001000
   \<and> (1700000001000::int) - 1700000000000 < debounceMs (throttling sampleAlertConfig)
   \<and> ev_type (motionEvent 1) = ev_type (motionEvent 0)
   \<and> \<not> fst (admitAlert sampleAlertConfig 1700000001000 (motionEvent 1) admittedService)"
proof -
  have ex: "extractEventType ''tns1:VideoSource/MotionAlarm'' = ''motionalarm''" by code_simp
  have ty: "\<And>k. ev_type (motionEvent k) = ''motionalarm''"
    by (simp add: motionEvent_def processPolledEvent_def Let_def ex)
  have cfg: "webhookUrl sampleAlertConfig \<noteq> []" "throttling sampleAlertConfig = scenarioConfig"
    by (simp_all add: sampleAlertConfig_def)
  have hyp: "isEnabled freshAlertService" "throttlingEnabled (throttling sampleAlertConfig)"
    "fst (shouldSendAlert (throttling sampleAlertConfig) (ev_type (motionEvent 0)) 1700000000000
            (throttleMap freshAlertService))"
    by (simp_all add: ty cfg freshAlertService_def scenarioConfig_def shouldSendAlert_def
          throttleRecord_def gateRecord_def resetWindow_def newRecord_def Let_def)
  note K = admission_is_kept [OF hyp(1) cfg(1) hyp(2,3), where fetch = failAlways
      and now' = 1700000001000 and e' = "motionEvent 1"]
  from K have k1: "map_option lastEventTime (throttleMap admittedService (ev_type (motionEvent 0))) =
      Some 1700000000000"
    unfolding admittedService_def by blast
  from K have "map_option count (throttleMap admittedService (ev_type (motionEvent 0))) =
      Some (count (resetWindow (throttling sampleAlertConfig) 1700000000000
              (case throttleMap freshAlertService (ev_type (motionEvent 0)) of
                 None \<Rightarrow> newRecord 1700000000000 | Some r \<Rightarrow> r)) + 1)"
    unfolding admittedService_def by blast
  then have k2: "map_option count (throttleMap admittedService (ev_type (motionEvent 0))) = Some 1"
    by (simp add: freshAlertService_def resetWindow_def newRecord_def cfg scenarioConfig_def)
  have gap: "(0::int) < 1700000000000 \<and> (1700000000000::int) \<le> 1700000001000 \<and>
      (1700000001000::int) - 1700000000000 < debounceMs (throttling sampleAlertConfig) \<and>
      ev_type (motionEvent 1) = ev_type (motionEvent 0)"
    by (simp add: cfg ty scenarioConfig_def)
  with K have k3: "\<not> fst (admitAlert sampleAlertConfig 1700000001000 (motionEvent 1) admittedService)"
    unfolding admittedService_def by blast
  from k1 k2 k3 gap hyp cfg(1) sendWebhook_failAlways show ?thesis
    by (simp add: ty)
qed

section \<open>Properties of the notification receiver\<close>

lemma handleHttpRequest_condition:
  "(method = ''POST'' \<and>
     (case pathname of None \<Rightarrow> False | Some p \<Rightarrow> p \<noteq> [] \<and> startsWith p ''/events/'')) =
   pushEndpoint method pathname"
  by (auto simp add: pushEndpoint_def startsWith_def split: option.splits)

lemma badTimeBody_result:
  "snd (snd (processEventNotification sampleRuntime badTimeBody activeService)) = Some RangeError"
  "parseEventXml sampleRuntime ''no xml at all'' = []"
  "length (parseEventXml sampleRuntime badTimeBody) = 1"
  by code_simp+

lemma sampleUrlParse_targets:
  "urlParse sampleRuntime (url postEvents) = Inr (Some ''/events/1700000000000'')"
  "urlParse sampleRuntime (url getEvents) = Inr (Some ''/events/1700000000000'')"
  "urlParse sampleRuntime (url postUndecodable) = Inl URIError"
  by (simp_all add: sampleRuntime_def sampleUrlParse_def postEvents_def getEvents_def
        postUndecodable_def)

text \<open>
  Claim C9. When \<open>url.parse\<close> returns for the target of a request: a \<open>POST\<close> request
  whose path starts with \<open>/events/\<close> is answered, once its body has been read, with
  status 200 and the empty SOAP envelope, whatever the body is and whatever the
  processing of the body does (no event, or an exception inside it), and with status 500
  only when writing that response fails; every other request is answered with status 404,
  and nothing is processed. When \<open>url.parse\<close> throws for the target, the handler writes
  no response at all, neither 200 nor 404, whatever the method is: the exception leaves
  the handler.
\<close>

theorem receiver_response:
  "(urlParse rt (url req) = Inr pathname \<longrightarrow>
      (pushEndpoint (httpMethod req) pathname \<longrightarrow>
         fst (handleHttpRequest rt True req body s) = Inr okResponse \<and>
         map_sum (\<lambda>e. e) statusCode (fst (handleHttpRequest rt False req body s)) = Inr 500 \<and>
         snd (handleHttpRequest rt writable req body s) =
           (fst (processEventNotification rt body s), fst (snd (processEventNotification rt body s))))
      \<and> (\<not> pushEndpoint (httpMethod req) pathname \<longrightarrow>
           handleHttpRequest rt writable req body s = (Inr notFoundResponse, s, [])))
   \<and> (urlParse rt (url req) = Inl err \<longrightarrow>
        handleHttpRequest rt writable req body s = (Inl err, s, []))"
  unfolding handleHttpRequest_def handleHttpRequest_condition
  by (auto simp add: okResponse_def notFoundResponse_def split: prod.splits)

theorem receiver_response_witness:
  "urlParse sampleRuntime (url postEvents) = Inr (Some ''/events/1700000000000'')
   \<and> pushEndpoint (httpMethod postEvents) (Some ''/events/1700000000000'')
   \<and> snd (snd (processEventNotification sampleRuntime badTimeBody activeService)) = Some RangeError
   \<and> fst (handleHttpRequest sampleRuntime True postEvents badTimeBody activeService) = Inr okResponse
   \<and> parseEventXml sampleRuntime ''no xml at all'' = []
   \<and> fst (handleHttpRequest sampleRuntime True postEvents ''no xml at all'' activeService) = Inr okResponse
   \<and> urlParse sampleRuntime (url getEvents) = Inr (Some ''/events/1700000000000'')
   \<and> \<not> pushEndpoint (httpMethod getEvents) (Some ''/events/1700000000000'')
   \<and> handleHttpRequest sampleRuntime True getEvents badTimeBody activeService =
        (Inr notFoundResponse, activeService, [])
   \<and> urlParse sampleRuntime (url postUndecodable) = Inl URIError
   \<and> handleHttpRequest sampleRuntime True postUndecodable badTimeBody activeService =
        (Inl URIError, activeService, [])"
proof -
  have a: "pushEndpoint (httpMethod postEvents) (Some ''/events/1700000000000'')"
    "\<not> pushEndpoint (httpMethod getEvents) (Some ''/events/1700000000000'')"
    by (simp_all add: pushEndpoint_def postEvents_def getEvents_def startsWith_def)
  from receiver_response [where req = postEvents and rt = sampleRuntime and body = badTimeBody
      and s = activeService and pathname = "Some ''/events/1700000000000''"]
    receiver_response [where req = postEvents and rt = sampleRuntime and body = "''no xml at all''"
      and s = activeService and pathname = "Some ''/events/1700000000000''"]
    receiver_response [where req = getEvents and rt = sampleRuntime and body = badTimeBody
      and s = activeService and writable = True and pathname = "Some ''/events/1700000000000''"]
    receiver_response [where req = postUndecodable and rt = sampleRuntime and body = badTimeBody
      and s = activeService and writable = True and err = URIError]
    a badTimeBody_result sampleUrlParse_targets
  show ?thesis by simp
qed

section \<open>Properties of the notification parser\<close>

lemma firstMatch_None: "\<not> sublist pat s \<Longrightarrow> firstMatch pat s = None"
proof (cases "firstMatch pat s")
  case None
  then show ?thesis by simp
next
  case (Some x)
  assume ns: "\<not> sublist pat s"
  obtain sk rest where "x = (sk, rest)" by (cases x)
  with Some have "s = sk @ pat @ rest" by (simp add: firstMatch_decomp)
  then have "sublist pat s" by (auto simp add: sublist_def)
  with ns show ?thesis by simp
qed

lemma firstMatch_first:
  assumes "pat = a # p'" and "a \<notin> set p'"
  shows "\<not> sublist pat u \<Longrightarrow> firstMatch pat (u @ pat @ v) = Some (u, v)"
proof (induction u)
  case Nil
  then show ?case by (simp add: assms(1) startsWith_def)
next
  case (Cons x u)
  from Cons.prems have ns: "\<not> sublist pat u" and np: "\<not> prefix pat (x # u)"
    by (simp_all add: sublist_Cons_right)
  have "\<not> prefix pat (x # u @ pat @ v)"
  proof
    assume "prefix pat (x # u @ pat @ v)"
    then have xa: "x = a" and pp: "prefix p' (u @ a # p' @ v)" by (auto simp add: assms(1))
    from pp consider (inside) "prefix p' u" | (across) us where "p' = u @ us" "prefix us (a # p' @ v)"
      by (auto simp add: prefix_append)
    then show False
    proof cases
      case inside
      with xa np show False by (simp add: assms(1))
    next
      case across
      show False
      proof (cases us)
        case Nil
        with across xa np show False by (simp add: assms(1))
      next
        case (Cons y ys)
        with across have "a \<in> set p'" by simp
        with assms(2) show False by simp
      qed
    qed
  qed
  with Cons.IH [OF ns] show ?case by (simp add: startsWith_def)
qed

lemma firstMatch_openTag:
  "\<not> sublist openTag u \<Longrightarrow> firstMatch openTag (u @ openTag @ v) = Some (u, v)"
  by (rule firstMatch_first [where a = "CHR ''<''" and p' = "''wsnt:NotificationMessage>''"])
     (simp_all add: openTag_def)

lemma firstMatch_closeTag:
  "\<not> sublist closeTag u \<Longrightarrow> firstMatch closeTag (u @ closeTag @ v) = Some (u, v)"
  by (rule firstMatch_first [where a = "CHR ''<''" and p' = "''/wsnt:NotificationMessage>''"])
     (simp_all add: closeTag_def)

lemma notificationMessages_payload:
  "delimited pre bs \<Longrightarrow> notificationMessages (payload pre bs) = map (\<lambda>(inner, sep). block inner) bs"
proof (induction bs arbitrary: pre)
  case Nil
  show ?case
  proof (cases "firstMatch openTag pre")
    case None
    then show ?thesis by (simp add: notificationMessages.simps)
  next
    case (Some x)
    obtain skipped rest where x: "x = (skipped, rest)" by (cases x)
    from Nil Some x have "\<not> sublist closeTag rest"
      by (simp add: noBlock_def includes_str_sublist)
    then have "firstMatch closeTag rest = None" by (rule firstMatch_None)
    with Some x show ?thesis by (simp add: notificationMessages.simps)
  qed
next
  case (Cons b bs)
  obtain inner sep where b: "b = (inner, sep)" by (cases b)
  from Cons.prems have pre: "\<not> sublist openTag pre" and inn: "\<not> sublist closeTag inner"
    and rest: "delimited sep bs"
    by (simp_all add: b includes_str_sublist)
  have "payload pre (b # bs) = pre @ openTag @ (inner @ closeTag @ payload sep bs)"
    by (simp add: b block_def)
  then have "notificationMessages (payload pre (b # bs)) =
      (openTag @ inner @ closeTag) # notificationMessages (payload sep bs)"
    using firstMatch_openTag [OF pre, of "inner @ closeTag @ payload sep bs"]
      firstMatch_closeTag [OF inn, of "payload sep bs"]
    by (subst notificationMessages.simps) simp
  with Cons.IH [OF rest] show ?case by (simp add: b block_def)
qed

lemma parseMessage_fields:
  "ev_id (parseMessage rt k messageXml) = draw rt k"
  "ev_raw (parseMessage rt k messageXml) = messageXml"
  by (simp_all add: parseMessage_def Let_def)

lemma parseEventXml_ids:
  "map ev_id (parseEventXml rt xmlBody) = map (draw rt) [0..<length (notificationMessages xmlBody)]"
proof -
  have "map ev_id (map (\<lambda>(k, messageXml). parseMessage rt k messageXml) xs) = map (draw rt) (map fst xs)"
    for xs by (induction xs) (auto simp add: parseMessage_fields)
  then show ?thesis unfolding parseEventXml_def by (simp only: map_fst_enumerate add_0)
qed

lemma parseEventXml_raw:
  "map ev_raw (parseEventXml rt xmlBody) = notificationMessages xmlBody"
proof -
  have "map ev_raw (map (\<lambda>(k, messageXml). parseMessage rt k messageXml) xs) = map snd xs"
    for xs by (induction xs) (auto simp add: parseMessage_fields)
  then show ?thesis unfolding parseEventXml_def by (simp only: map_snd_enumerate)
qed

lemma firstMatch_skipped:
  "pat \<noteq> [] \<Longrightarrow> firstMatch pat s = Some (skipped, rest) \<Longrightarrow> \<not> sublist pat skipped"
proof (induction s arbitrary: skipped)
  case Nil
  then show ?case by simp
next
  case (Cons x xs)
  show ?case
  proof (cases "startsWith (x # xs) pat")
    case True
    with Cons.prems show ?thesis by simp
  next
    case False
    with Cons.prems obtain sk where sk: "firstMatch pat xs = Some (sk, rest)" "skipped = x # sk"
      by (auto split: option.splits)
    from Cons.IH [OF Cons.prems(1) sk(1)] have ns: "\<not> sublist pat sk" .
    from firstMatch_decomp [OF sk(1)] have xs: "xs = sk @ pat @ rest" .
    have "\<not> prefix pat (x # sk)"
    proof
      assume "prefix pat (x # sk)"
      then have "prefix pat ((x # sk) @ pat @ rest)" by (rule prefix_prefix)
      with xs False show False by (simp add: startsWith_def)
    qed
    with ns sk(2) show ?thesis by (simp add: sublist_Cons_right)
  qed
qed

lemma firstMatch_None_sublist:
  "firstMatch pat s = None \<Longrightarrow> \<not> sublist pat s"
proof (induction s)
  case Nil
  then show ?case by (simp split: if_splits)
next
  case (Cons x xs)
  then show ?case
    by (auto simp add: sublist_Cons_right startsWith_def split: if_splits option.splits)
qed

lemma payload_exists:
  "\<exists>pre bs. xmlBody = payload pre bs \<and> delimited pre bs"
proof (induction xmlBody rule: notificationMessages.induct)
  case (1 xmlBody)
  show ?case
  proof (cases "firstMatch openTag xmlBody")
    case None
    then have "xmlBody = payload xmlBody [] \<and> delimited xmlBody []" by (simp add: noBlock_def)
    then show ?thesis by blast
  next
    case (Some x)
    obtain skipped rest where x: "x = (skipped, rest)" by (cases x)
    with Some have fm: "firstMatch openTag xmlBody = Some (skipped, rest)" by simp
    show ?thesis
    proof (cases "firstMatch closeTag rest")
      case None
      then have "\<not> includes_str rest closeTag"
        by (simp add: includes_str_sublist firstMatch_None_sublist)
      with fm have "xmlBody = payload xmlBody [] \<and> delimited xmlBody []" by (simp add: noBlock_def)
      then show ?thesis by blast
    next
      case (Some y)
      obtain inner rest' where y: "y = (inner, rest')" by (cases y)
      with Some have fc: "firstMatch closeTag rest = Some (inner, rest')" by simp
      from "1.IH" [OF fm refl fc refl] obtain pre' bs' where
        r: "rest' = payload pre' bs'" and d: "delimited pre' bs'" by blast
      have o: "openTag \<noteq> []" "closeTag \<noteq> []" by (simp_all add: openTag_def closeTag_def)
      from firstMatch_skipped [OF o(1) fm] have a: "\<not> includes_str skipped openTag"
        by (simp add: includes_str_sublist)
      from firstMatch_skipped [OF o(2) fc] have b: "\<not> includes_str inner closeTag"
        by (simp add: includes_str_sublist)
      from firstMatch_decomp [OF fm] firstMatch_decomp [OF fc] r
      have "xmlBody = payload skipped ((inner, pre') # bs')" by (simp add: block_def)
      moreover from a b d have "delimited skipped ((inner, pre') # bs')" by simp
      ultimately show ?thesis by blast
    qed
  qed
qed

lemma parseEventXml_payload:
  assumes "delimited pre bs"
  shows "parseEventXml rt (payload pre bs) =
     map (\<lambda>(k, (inner, sep)). parseMessage rt k (block inner)) (enumerate 0 bs)"
proof -
  have "map (\<lambda>(k, m). parseMessage rt k m) (enumerate n (map (\<lambda>(inner, sep). block inner) xs)) =
      map (\<lambda>(k, (inner, sep)). parseMessage rt k (block inner)) (enumerate n xs)" for n xs
    by (induction xs arbitrary: n) (auto)
  with notificationMessages_payload [OF assms] show ?thesis
    by (simp add: parseEventXml_def)
qed

lemma topicMatch_None:
  "\<not> sublist ''<wsnt:Topic'' m \<Longrightarrow> topicMatch m = None"
proof (induction m)
  case Nil
  then show ?case by simp
next
  case (Cons x xs)
  from Cons.prems have np: "\<not> startsWith (x # xs) ''<wsnt:Topic''"
    and ns: "\<not> sublist ''<wsnt:Topic'' xs"
    unfolding startsWith_def sublist_Cons_right by blast+
  from np have "topicMatch (x # xs) = topicMatch xs"
    by (simp only: topicMatch.simps if_False)
  with Cons.IH [OF ns] show ?case by simp
qed

lemma firstMatch_not_prefix:
  assumes "pat = a # p'" and "a \<notin> set p'" and "\<not> sublist pat (x # u)"
  shows "\<not> startsWith (x # u @ pat @ v) pat"
proof
  assume p: "startsWith (x # u @ pat @ v) pat"
  have "firstMatch pat ((x # u) @ pat @ v) = Some (x # u, v)"
    using assms by (rule firstMatch_first)
  with p show False by simp
qed

lemma topicMatch_found:
  assumes "\<not> sublist ''<wsnt:Topic'' u" and "topicAt rest = Some captured"
  shows "topicMatch (u @ ''<wsnt:Topic'' @ rest) = Some captured"
  using assms(1)
proof (induction u)
  case Nil
  from assms(2) show ?case by (simp add: startsWith_def)
next
  case (Cons x u)
  then have ns: "\<not> sublist ''<wsnt:Topic'' u" by (simp add: sublist_Cons_right)
  have "\<not> startsWith (x # u @ ''<wsnt:Topic'' @ rest) ''<wsnt:Topic''"
    by (rule firstMatch_not_prefix [where a = "CHR ''<''" and p' = "''wsnt:Topic''"])
       (simp_all add: Cons.prems)
  with Cons.IH [OF ns] show ?case by simp
qed

lemma firstMatch_char:
  "c \<notin> set u \<Longrightarrow> firstMatch [c] (u @ c # v) = Some (u, v)"
  using firstMatch_first [where pat = "[c]" and a = c and p' = "[]" and u = u and v = v]
  by (simp add: sublist_def) (metis append_Cons append_Nil in_set_conv_decomp)

lemma topicAt_element:
  assumes "CHR ''>'' \<notin> set attrs" and "\<not> sublist ''</wsnt:Topic>'' captured"
    and "\<not> list_ex lineTerminator captured"
  shows "topicAt (attrs @ ''>'' @ captured @ ''</wsnt:Topic>'' @ w) = Some captured"
proof -
  have a: "firstMatch ''>'' (attrs @ CHR ''>'' # (captured @ ''</wsnt:Topic>'' @ w)) =
      Some (attrs, captured @ ''</wsnt:Topic>'' @ w)"
    using assms(1) by (rule firstMatch_char)
  have b: "firstMatch ''</wsnt:Topic>'' (captured @ ''</wsnt:Topic>'' @ w) = Some (captured, w)"
    by (rule firstMatch_first [where a = "CHR ''<''" and p' = "''/wsnt:Topic>''"])
       (simp_all add: assms(2))
  from a b assms(3) show ?thesis by (simp add: topicAt_def)
qed

lemma attrMatch_None:
  "\<not> sublist (name @ ''='' @ dquote) m \<Longrightarrow> attrMatch name m = None"
  by (simp add: attrMatch_def firstMatch_None)

lemma attrMatch_UtcTime:
  assumes "\<not> sublist (''UtcTime='' @ dquote) u" and "CHR 0x22 \<notin> set v"
  shows "attrMatch ''UtcTime'' (u @ ''UtcTime='' @ dquote @ v @ dquote @ w) = Some v"
proof -
  have a: "firstMatch (''UtcTime='' @ dquote) (u @ (''UtcTime='' @ dquote) @ (v @ dquote @ w)) =
      Some (u, v @ dquote @ w)"
    using assms(1)
    by (intro firstMatch_first [where a = "CHR ''U''" and p' = "''tcTime='' @ dquote"])
       (simp_all add: dquote_def)
  have b: "firstMatch dquote (v @ CHR 0x22 # w) = Some (v, w)"
    unfolding dquote_def using assms(2) by (rule firstMatch_char)
  from a b show ?thesis by (simp add: attrMatch_def dquote_def)
qed

lemma parseMessage_topic:
  "ev_topic (parseMessage rt k m) = (case topicMatch m of Some captured \<Rightarrow> captured | None \<Rightarrow> ''unknown'')"
  "ev_type (parseMessage rt k m) = extractEventType (ev_topic (parseMessage rt k m))"
  "ev_timestamp (parseMessage rt k m) =
     (case attrMatch ''UtcTime'' m of Some captured \<Rightarrow> parseDate rt captured | None \<Rightarrow> Some (clock rt k))"
  by (simp_all add: parseMessage_def Let_def)

text \<open>
  Claim C7. Every payload can be written as a sequence of delimited blocks: the texts
  before the blocks hold no opening tag, the texts inside hold no closing tag, and the
  text behind the last block holds no further block. For a payload written so,
  \<open>parseEventXml\<close> produces one event for each of the blocks, in order and with the
  block as its raw text, whatever the block holds: for a payload of \<open>n\<close> blocks the
  result has \<open>n\<close> events, and no block is skipped. The text around the blocks is passed
  over and never ends the processing of the blocks. The ids are the clock readings and
  random suffixes drawn for the blocks, so they are pairwise distinct exactly when those
  draws are. The type of an event is the classification of its topic. A block without
  the text \<open><wsnt:Topic\<close> gets the topic and the type \<open>unknown\<close>; a block whose first
  \<open><wsnt:Topic\<close> starts a complete element on one line gets the text of that element
  as its topic. A block without the text \<open>UtcTime="\<close> gets the time of its processing; a
  block with such an attribute gets the date that the \<open>Date\<close> constructor makes of the
  value of the first one, which is an invalid date when the value is not a date.
\<close>

theorem one_event_per_block:
  "(\<exists>pre bs. xmlBody = payload pre bs \<and> delimited pre bs)
   \<and> (delimited pre bs \<longrightarrow>
        parseEventXml rt (payload pre bs) =
          map (\<lambda>(k, (inner, sep)). parseMessage rt k (block inner)) (enumerate 0 bs)
        \<and> length (parseEventXml rt (payload pre bs)) = length bs
        \<and> map ev_raw (parseEventXml rt (payload pre bs)) = map (\<lambda>(inner, sep). block inner) bs
        \<and> map ev_id (parseEventXml rt (payload pre bs)) = map (draw rt) [0..<length bs]
        \<and> (distinct (map ev_id (parseEventXml rt (payload pre bs))) \<longleftrightarrow>
             inj_on (draw rt) {0..<length bs}))
   \<and> ev_type (parseMessage rt k m) = extractEventType (ev_topic (parseMessage rt k m))
   \<and> (\<not> includes_str m ''<wsnt:Topic'' \<longrightarrow>
        ev_topic (parseMessage rt k m) = ''unknown'' \<and> ev_type (parseMessage rt k m) = ''unknown'')
   \<and> (\<not> includes_str u ''<wsnt:Topic'' \<and> CHR ''>'' \<notin> set attrs \<and>
        \<not> includes_str captured ''</wsnt:Topic>'' \<and> \<not> list_ex lineTerminator captured \<longrightarrow>
        ev_topic (parseMessage rt k
          (u @ ''<wsnt:Topic'' @ attrs @ ''>'' @ captured @ ''</wsnt:Topic>'' @ w)) = captured)
   \<and> (\<not> includes_str m (''UtcTime='' @ dquote) \<longrightarrow>
        ev_timestamp (parseMessage rt k m) = Some (clock rt k))
   \<and> (\<not> includes_str u' (''UtcTime='' @ dquote) \<and> CHR 0x22 \<notin> set v \<longrightarrow>
        ev_timestamp (parseMessage rt k (u' @ ''UtcTime='' @ dquote @ v @ dquote @ w')) =
          parseDate rt v)"
proof -
  have ex: "\<exists>pre bs. xmlBody = payload pre bs \<and> delimited pre bs" by (rule payload_exists)
  have blocks: "parseEventXml rt (payload pre bs) =
          map (\<lambda>(k, (inner, sep)). parseMessage rt k (block inner)) (enumerate 0 bs)
        \<and> length (parseEventXml rt (payload pre bs)) = length bs
        \<and> map ev_raw (parseEventXml rt (payload pre bs)) = map (\<lambda>(inner, sep). block inner) bs
        \<and> map ev_id (parseEventXml rt (payload pre bs)) = map (draw rt) [0..<length bs]
        \<and> (distinct (map ev_id (parseEventXml rt (payload pre bs))) \<longleftrightarrow>
             inj_on (draw rt) {0..<length bs})" if d: "delimited pre bs"
  proof -
    have n: "length (notificationMessages (payload pre bs)) = length bs"
      by (simp add: notificationMessages_payload [OF d])
    have len: "length (parseEventXml rt (payload pre bs)) = length bs"
      using n by (simp add: parseEventXml_def)
    have raw: "map ev_raw (parseEventXml rt (payload pre bs)) = map (\<lambda>(inner, sep). block inner) bs"
      by (simp add: parseEventXml_raw notificationMessages_payload [OF d])
    have ids: "map ev_id (parseEventXml rt (payload pre bs)) = map (draw rt) [0..<length bs]"
      by (simp add: parseEventXml_ids n)
    have "distinct (map (draw rt) [0..<length bs]) \<longleftrightarrow> inj_on (draw rt) {0..<length bs}"
      by (simp add: distinct_map)
    with len raw ids parseEventXml_payload [OF d, of rt] show ?thesis by simp
  qed
  have ty: "ev_type (parseMessage rt k m) = extractEventType (ev_topic (parseMessage rt k m))"
    by (rule parseMessage_topic)
  have un: "extractEventType ''unknown'' = ''unknown''" by code_simp
  have notopic: "ev_topic (parseMessage rt k m) = ''unknown'' \<and> ev_type (parseMessage rt k m) = ''unknown''"
    if "\<not> includes_str m ''<wsnt:Topic''"
  proof -
    from that have "topicMatch m = None" by (simp add: includes_str_sublist topicMatch_None)
    then have "ev_topic (parseMessage rt k m) = ''unknown''" by (simp add: parseMessage_topic(1))
    with ty un show ?thesis by simp
  qed
  have topic: "ev_topic (parseMessage rt k
          (u @ ''<wsnt:Topic'' @ attrs @ ''>'' @ captured @ ''</wsnt:Topic>'' @ w)) = captured"
    if h: "\<not> includes_str u ''<wsnt:Topic'' \<and> CHR ''>'' \<notin> set attrs \<and>
        \<not> includes_str captured ''</wsnt:Topic>'' \<and> \<not> list_ex lineTerminator captured"
  proof -
    from h have "topicAt (attrs @ ''>'' @ captured @ ''</wsnt:Topic>'' @ w) = Some captured"
      by (intro topicAt_element) (simp_all add: includes_str_sublist)
    with h have "topicMatch (u @ ''<wsnt:Topic'' @ (attrs @ ''>'' @ captured @ ''</wsnt:Topic>'' @ w)) =
        Some captured"
      by (intro topicMatch_found) (simp_all add: includes_str_sublist)
    then show ?thesis by (simp only: parseMessage_topic(1) option.case)
  qed
  have notime: "ev_timestamp (parseMessage rt k m) = Some (clock rt k)"
    if "\<not> includes_str m (''UtcTime='' @ dquote)"
  proof -
    from that have "attrMatch ''UtcTime'' m = None"
      by (intro attrMatch_None) (simp add: includes_str_sublist)
    then show ?thesis by (simp only: parseMessage_topic(3) option.case)
  qed
  have time: "ev_timestamp (parseMessage rt k (u' @ ''UtcTime='' @ dquote @ v @ dquote @ w')) =
          parseDate rt v"
    if h: "\<not> includes_str u' (''UtcTime='' @ dquote) \<and> CHR 0x22 \<notin> set v"
  proof -
    from h have "attrMatch ''UtcTime'' (u' @ ''UtcTime='' @ dquote @ v @ dquote @ w') = Some v"
      by (intro attrMatch_UtcTime) (simp_all add: includes_str_sublist)
    then show ?thesis by (simp only: parseMessage_topic(3) option.case)
  qed
  from ex blocks ty notopic topic notime time show ?thesis by blast
qed


theorem one_event_per_block_witness:
  "delimited ''<soap:Body>'' garbledBlocks
   \<and> length (parseEventXml sampleRuntime (payload ''<soap:Body>'' garbledBlocks)) = 2
   \<and> map ev_raw (parseEventXml sampleRuntime (payload ''<soap:Body>'' garbledBlocks)) =
        [block ''%%% not a notification %%%'', block motionInner]
   \<and> inj_on (draw sampleRuntime) {0..<2}
   \<and> distinct (map ev_id (parseEventXml sampleRuntime (payload ''<soap:Body>'' garbledBlocks)))
   \<and> \<not> includes_str (block ''%%% not a notification %%%'') ''<wsnt:Topic''
   \<and> ev_topic (parseMessage sampleRuntime 0 (block ''%%% not a notification %%%'')) = ''unknown''
   \<and> \<not> includes_str (block ''%%% not a notification %%%'') (''UtcTime='' @ dquote)
   \<and> ev_timestamp (parseMessage sampleRuntime 0 (block ''%%% not a notification %%%'')) =
        Some 1700000000000
   \<and> \<not> includes_str openTag ''<wsnt:Topic'' \<and> CHR ''>'' \<notin> set ''''
   \<and> \<not> includes_str ''tns1:VideoSource/MotionAlarm'' ''</wsnt:Topic>''
   \<and> \<not> list_ex lineTerminator ''tns1:VideoSource/MotionAlarm''
   \<and> ev_topic (parseMessage sampleRuntime 0 badTimeBody) = ''tns1:VideoSource/MotionAlarm''
   \<and> \<not> includes_str
          (openTag @ ''<wsnt:Topic>tns1:VideoSource/MotionAlarm</wsnt:Topic><tt:Message '')
          (''UtcTime='' @ dquote)
   \<and> CHR 0x22 \<notin> set ''yesterday''
   \<and> ev_timestamp (parseMessage sampleRuntime 0 badTimeBody) = None"
proof -
  let ?garbled = "block ''%%% not a notification %%%''"
  let ?u' = "openTag @ ''<wsnt:Topic>tns1:VideoSource/MotionAlarm</wsnt:Topic><tt:Message ''"
  have d: "delimited ''<soap:Body>'' garbledBlocks" by code_simp
  have n: "length garbledBlocks = 2" by (simp add: garbledBlocks_def)
  have i: "inj_on (draw sampleRuntime) {0..<2}"
    by (simp add: inj_on_def sampleRuntime_def)
  have h1: "\<not> includes_str ?garbled ''<wsnt:Topic''" by code_simp
  have h2: "\<not> includes_str ?garbled (''UtcTime='' @ dquote)" by code_simp
  have h3: "\<not> includes_str openTag ''<wsnt:Topic'' \<and> CHR ''>'' \<notin> set '''' \<and>
      \<not> includes_str ''tns1:VideoSource/MotionAlarm'' ''</wsnt:Topic>'' \<and>
      \<not> list_ex lineTerminator ''tns1:VideoSource/MotionAlarm''"
    by code_simp
  have h4: "\<not> includes_str ?u' (''UtcTime='' @ dquote) \<and> CHR 0x22 \<notin> set ''yesterday''"
    by code_simp
  have e1: "openTag @ ''<wsnt:Topic'' @ '''' @ ''>'' @ ''tns1:VideoSource/MotionAlarm'' @ ''</wsnt:Topic>'' @
      (''<tt:Message UtcTime='' @ dquote @ ''yesterday'' @ dquote @ ''></tt:Message>'' @ closeTag) =
      badTimeBody"
    by (simp add: badTimeBody_def openTag_def closeTag_def dquote_def)
  have e2: "?u' @ ''UtcTime='' @ dquote @ ''yesterday'' @ dquote @ (''></tt:Message>'' @ closeTag) =
      badTimeBody"
    by (simp add: badTimeBody_def openTag_def closeTag_def dquote_def)
  have c: "clock sampleRuntime 0 = 1700000000000"
    "parseDate sampleRuntime ''yesterday'' = None"
    by (simp_all add: sampleRuntime_def)
  note T = one_event_per_block [where xmlBody = "payload ''<soap:Body>'' garbledBlocks"
      and pre = "''<soap:Body>''" and bs = garbledBlocks
      and rt = sampleRuntime and k = 0 and m = ?garbled and u = openTag and attrs = "''''"
      and captured = "''tns1:VideoSource/MotionAlarm''"
      and w = "''<tt:Message UtcTime='' @ dquote @ ''yesterday'' @ dquote @ ''></tt:Message>'' @ closeTag"
      and u' = ?u' and v = "''yesterday''" and w' = "''></tt:Message>'' @ closeTag"]
  from T d have "length (parseEventXml sampleRuntime (payload ''<soap:Body>'' garbledBlocks)) =
      length garbledBlocks"
    by blast
  with n have len: "length (parseEventXml sampleRuntime (payload ''<soap:Body>'' garbledBlocks)) = 2"
    by simp
  from T d have "map ev_raw (parseEventXml sampleRuntime (payload ''<soap:Body>'' garbledBlocks)) =
      map (\<lambda>(inner, sep). block inner) garbledBlocks"
    by blast
  then have raw: "map ev_raw (parseEventXml sampleRuntime (payload ''<soap:Body>'' garbledBlocks)) =
      [?garbled, block motionInner]"
    by (simp add: garbledBlocks_def)
  from T d have "distinct (map ev_id (parseEventXml sampleRuntime (payload ''<soap:Body>'' garbledBlocks)))
      \<longleftrightarrow> inj_on (draw sampleRuntime) {0..<length garbledBlocks}"
    by blast
  with i n have dist: "distinct (map ev_id (parseEventXml sampleRuntime (payload ''<soap:Body>'' garbledBlocks)))"
    by simp
  from T h1 have r1: "ev_topic (parseMessage sampleRuntime 0 ?garbled) = ''unknown''" by blast
  from T h2 have "ev_timestamp (parseMessage sampleRuntime 0 ?garbled) = Some (clock sampleRuntime 0)"
    by blast
  with c have r2: "ev_timestamp (parseMessage sampleRuntime 0 ?garbled) = Some 1700000000000" by simp
  from T h3 have "ev_topic (parseMessage sampleRuntime 0
      (openTag @ ''<wsnt:Topic'' @ '''' @ ''>'' @ ''tns1:VideoSource/MotionAlarm'' @ ''</wsnt:Topic>'' @
       (''<tt:Message UtcTime='' @ dquote @ ''yesterday'' @ dquote @ ''></tt:Message>'' @ closeTag))) =
      ''tns1:VideoSource/MotionAlarm''"
    by blast
  then have r3: "ev_topic (parseMessage sampleRuntime 0 badTimeBody) = ''tns1:VideoSource/MotionAlarm''"
    by (simp only: e1)
  from T h4 have "ev_timestamp (parseMessage sampleRuntime 0
      (?u' @ ''UtcTime='' @ dquote @ ''yesterday'' @ dquote @ (''></tt:Message>'' @ closeTag))) =
      parseDate sampleRuntime ''yesterday''"
    by blast
  then have r4: "ev_timestamp (parseMessage sampleRuntime 0 badTimeBody) = None"
    by (simp only: e2 c)
  from d len raw i dist h1 r1 h2 r2 h3 r3 h4 r4 show ?thesis by blast
qed

text \<open>
  A block that holds no notification is not skipped: two blocks, one of them with
  neither a topic nor a time, give two events, the first with the topic \<open>unknown\<close>. And
  two blocks parsed at the same clock reading with the same random suffix get the same id.
\<close>

theorem garbled_block_not_skipped:
  "delimited ''<soap:Body>'' garbledBlocks
   \<and> topicMatch (fst (garbledBlocks ! 0)) = None
   \<and> attrMatch ''UtcTime'' (fst (garbledBlocks ! 0)) = None
   \<and> length garbledBlocks = 2
   \<and> length (parseEventXml sampleRuntime (payload ''<soap:Body>'' garbledBlocks)) = 2
   \<and> map ev_topic (parseEventXml sampleRuntime (payload ''<soap:Body>'' garbledBlocks)) =
        [''unknown'', ''tns1:VideoSource/MotionAlarm'']
   \<and> \<not> distinct (map ev_id
          (parseEventXml stuckRuntime (payload [] [(motionInner, []), (motionInner, [])])))"
  by code_simp

text \<open>
  Behind the parser, in \<open>processEventNotification\<close>, an event with an invalid date ends
  the loop over the parsed events: of a block with a time that is no date and a motion
  block after it, both are parsed, and only the first is counted and emitted.
\<close>

lemma invalid_time_stops_later_blocks:
  "length (parseEventXml sampleRuntime (badTimeBody @ block motionInner)) = 2"
  "eventCounter (fst (processEventNotification sampleRuntime (badTimeBody @ block motionInner) activeService)) = 1"
  "length (fst (snd (processEventNotification sampleRuntime (badTimeBody @ block motionInner) activeService))) = 1"
  "snd (snd (processEventNotification sampleRuntime (badTimeBody @ block motionInner) activeService)) =
     Some RangeError"
  by code_simp+

end
